theory Spec2Isabelle
  imports Complex_Main "HOL-Library.Multiset"
begin

section \<open>Python values\<close>

text \<open>
  A Python \<^verbatim>\<open>str\<close> is a sequence of Unicode code points; the tokenizer's separator set
  holds code points beyond one byte, so a string is modelled as the list of its code points.
  \<open>py\<close> turns an ASCII literal into such a list.
\<close>

type_synonym pystr = "int list"

definition py :: "string \<Rightarrow> pystr" where
  "py s = map of_char s"

text \<open>
  A Python \<^verbatim>\<open>dict\<close> iterates in insertion order, and \<^verbatim>\<open>top_color_at\<close> depends on that
  order, so a dict is an association list in insertion order. Assigning to a key that is
  present keeps its position; assigning to a new key appends it.
\<close>

type_synonym ('k, 'v) dict = "('k \<times> 'v) list"

definition dict_get :: "('k, 'v) dict \<Rightarrow> 'k \<Rightarrow> 'v option" where
  "dict_get d k = map_of d k"

fun dict_set :: "('k, 'v) dict \<Rightarrow> 'k \<Rightarrow> 'v \<Rightarrow> ('k, 'v) dict" where
  "dict_set [] k v = [(k, v)]"
| "dict_set ((k', v') # d) k v =
     (if k' = k then (k', v) # d else (k', v') # dict_set d k v)"

definition dict_pop :: "('k, 'v) dict \<Rightarrow> 'k \<Rightarrow> ('k, 'v) dict" where
  "dict_pop d k = filter (\<lambda>kv. fst kv \<noteq> k) d"

definition dict_values :: "('k, 'v) dict \<Rightarrow> 'v list" where
  "dict_values d = map snd d"

section \<open>Majority aggregation (server.py: \<^verbatim>\<open>top_color_at\<close>, \<^verbatim>\<open>ranges_from_votes\<close>)\<close>

text \<open>One position's votes: client id to color.\<close>

type_synonym bucket = "(pystr, pystr) dict"

text \<open>
  The loop of \<^verbatim>\<open>top_color_at\<close>: empty colors are skipped, every other color bumps its
  counter (\<^verbatim>\<open>counts[color] = counts.get(color, 0) + 1\<close>).
\<close>

definition count_vote :: "(pystr, nat) dict \<Rightarrow> pystr \<Rightarrow> (pystr, nat) dict" where
  "count_vote counts color =
     (if color = [] then counts
      else dict_set counts color
             ((case dict_get counts color of None \<Rightarrow> 0 | Some n \<Rightarrow> n) + 1))"

definition color_counts :: "bucket \<Rightarrow> (pystr, nat) dict" where
  "color_counts b = foldl count_vote [] (dict_values b)"

text \<open>
  Python's \<^verbatim>\<open>max(items, key=...)\<close> keeps the first item whose key is maximal: a later
  item replaces the best one only when its key is strictly greater.
\<close>

fun max_by_count :: "(pystr \<times> nat) \<Rightarrow> (pystr \<times> nat) list \<Rightarrow> (pystr \<times> nat)" where
  "max_by_count best [] = best"
| "max_by_count best (x # xs) = max_by_count (if snd best < snd x then x else best) xs"

definition top_color_at :: "bucket \<Rightarrow> pystr" where
  "top_color_at b =
     (case color_counts b of
        [] \<Rightarrow> []
      | x # xs \<Rightarrow> fst (max_by_count x xs))"

record highlight_range =
  rstart :: nat
  rend :: nat
  rcolor :: pystr

text \<open>The inner loop: \<^verbatim>\<open>while j + 1 < total and top_color_at(votes[j + 1]) == color\<close>.\<close>

function extend_run :: "bucket list \<Rightarrow> pystr \<Rightarrow> nat \<Rightarrow> nat" where
  "extend_run votes color j =
     (if j + 1 < length votes \<and> top_color_at (votes ! (j + 1)) = color
      then extend_run votes color (j + 1) else j)"
  by pat_completeness auto
termination
  by (relation "measure (\<lambda>(votes, color, j). length votes - j)") auto

declare extend_run.simps [simp del]

lemma extend_run_ge: "j \<le> extend_run votes color j"
proof (induction votes color j rule: extend_run.induct)
  case (1 votes color j)
  show ?case
  proof (cases "j + 1 < length votes \<and> top_color_at (votes ! (j + 1)) = color")
    case True
    with "1.IH" have "j + 1 \<le> extend_run votes color (j + 1)" by simp
    moreover from True have "extend_run votes color j = extend_run votes color (j + 1)"
      by (subst extend_run.simps) simp
    ultimately show ?thesis by simp
  next
    case False
    then have "extend_run votes color j = j"
      by (subst extend_run.simps) auto
    then show ?thesis by simp
  qed
qed

text \<open>The outer loop, with the list of ranges built so far.\<close>

function ranges_loop :: "bucket list \<Rightarrow> nat \<Rightarrow> highlight_range list \<Rightarrow> highlight_range list" where
  "ranges_loop votes i ranges =
     (if i < length votes then
        (let color = top_color_at (votes ! i) in
         if color = [] then ranges_loop votes (i + 1) ranges
         else
           (let j = extend_run votes color i in
            ranges_loop votes (j + 1)
              (ranges @ [\<lparr>rstart = i, rend = j, rcolor = color\<rparr>])))
      else ranges)"
  by pat_completeness auto
termination
proof (relation "measure (\<lambda>(votes, i, ranges). length votes - i)")
  show "wf (measure (\<lambda>(votes, i, ranges). length votes - i))" by simp
next
  fix votes :: "bucket list" and i :: nat and ranges :: "highlight_range list" and x
  assume "i < length votes"
  then show "((votes, i + 1, ranges), votes, i, ranges)
      \<in> measure (\<lambda>(votes, i, ranges). length votes - i)"
    by simp
next
  fix votes :: "bucket list" and i :: nat and ranges :: "highlight_range list" and x xa
  assume "i < length votes" and "xa = extend_run votes x i"
  then show "((votes, xa + 1, ranges @ [\<lparr>rstart = i, rend = xa, rcolor = x\<rparr>]), votes, i, ranges)
      \<in> measure (\<lambda>(votes, i, ranges). length votes - i)"
    using extend_run_ge [of i votes x] by simp
qed

declare ranges_loop.simps [simp del]

definition ranges_from_votes :: "bucket list \<Rightarrow> highlight_range list" where
  "ranges_from_votes votes = ranges_loop votes 0 []"


section \<open>Tokenizer (tokenizer.py)\<close>

text \<open>
  \<^verbatim>\<open>str.isspace\<close> and the regex class \<^verbatim>\<open>\s\<close> use the same set of code points (Python's
  Unicode whitespace).
\<close>

definition isspace :: "int \<Rightarrow> bool" where
  "isspace c \<longleftrightarrow>
     (9 \<le> c \<and> c \<le> 13) \<or> (28 \<le> c \<and> c \<le> 32) \<or> c = 133 \<or> c = 160 \<or> c = 5760 \<or>
     (8192 \<le> c \<and> c \<le> 8202) \<or> c = 8232 \<or> c = 8233 \<or> c = 8239 \<or> c = 8287 \<or> c = 12288"

text \<open>\<^verbatim>\<open>seg.isspace()\<close>: non-empty and all whitespace.\<close>

definition str_isspace :: "pystr \<Rightarrow> bool" where
  "str_isspace s \<longleftrightarrow> s \<noteq> [] \<and> list_all isspace s"

text \<open>
  The single-character alternative of \<^verbatim>\<open>RE_SPLIT\<close>: the characters
  \<^verbatim>\<open>. , : ; ! ? ( ) " - ' [ ] { }\<close>, the guillemets U+00AB and U+00BB, the quotes U+201C and
  U+201D, the dashes U+2014 and U+2013 and the ellipsis U+2026.
\<close>

definition RE_SPLIT_punct :: "int \<Rightarrow> bool" where
  "RE_SPLIT_punct c \<longleftrightarrow>
     c \<in> set [46, 44, 58, 59, 33, 63, 40, 41, 34, 45, 39, 91, 93, 123, 125,
              171, 187, 8220, 8221, 8212, 8211, 8230]"

definition RE_SPLIT_sep :: "int \<Rightarrow> bool" where
  "RE_SPLIT_sep c \<longleftrightarrow> isspace c \<or> RE_SPLIT_punct c"

text \<open>
  \<^verbatim>\<open>RE_SPLIT.split(plain)\<close>. The pattern has one capturing group, so the result alternates
  the text before a separator (possibly empty) and the separator itself: a maximal run of
  whitespace, or one punctuation character. The text after the last separator ends the list.
\<close>

function RE_SPLIT_split :: "pystr \<Rightarrow> pystr list" where
  "RE_SPLIT_split s =
     (let piece = takeWhile (\<lambda>c. \<not> RE_SPLIT_sep c) s;
          rest = dropWhile (\<lambda>c. \<not> RE_SPLIT_sep c) s
      in case rest of
           [] \<Rightarrow> [piece]
         | c # cs \<Rightarrow>
             if isspace c
             then piece # takeWhile isspace rest # RE_SPLIT_split (dropWhile isspace rest)
             else piece # [c] # RE_SPLIT_split cs)"
  by pat_completeness auto
termination
proof (relation "measure length")
  show "wf (measure length)" by simp
next
  fix s :: pystr and x xa c cs
  assume r: "xa = dropWhile (\<lambda>c. \<not> RE_SPLIT_sep c) s" "xa = c # cs" and "isspace c"
  have "length (dropWhile isspace xa) \<le> length cs"
    using r(2) \<open>isspace c\<close> by (simp add: length_dropWhile_le)
  also have "\<dots> < length xa" using r(2) by simp
  also have "\<dots> \<le> length s" using r(1) by (simp add: length_dropWhile_le)
  finally show "(dropWhile isspace xa, s) \<in> measure length" by simp
next
  fix s :: pystr and x xa c cs
  assume r: "xa = dropWhile (\<lambda>c. \<not> RE_SPLIT_sep c) s" "xa = c # cs"
  have "length cs < length xa" using r(2) by simp
  also have "\<dots> \<le> length s" using r(1) by (simp add: length_dropWhile_le)
  finally show "(cs, s) \<in> measure length" by simp
qed

declare RE_SPLIT_split.simps [simp del]

text \<open>
  Library functions the source calls are parameters of the model, collected in one record:
  the replacement of character references done by \<^verbatim>\<open>html.unescape\<close> on a text that contains
  an ampersand, the four regex substitutions of the HTML branch of \<^verbatim>\<open>html_to_plain\<close>
  (matched case-insensitively by the regex engine), the Markdown renderer,
  \<^verbatim>\<open>Path(name).name\<close>, \<^verbatim>\<open>str.lower\<close> and \<^verbatim>\<open>str.title\<close>; the subtraction of two floats, which
  rounds its result (times and durations are finite floats, seen as the reals they denote;
  their comparison is exact); and the request model's own test of whether a value is an
  acceptable string, which comes before the bounds the source declares.
\<close>

record host =
  charref_sub :: "pystr \<Rightarrow> pystr"
  HTML_BR_sub :: "pystr \<Rightarrow> pystr"
  HTML_CLOSE_TO_NL_sub :: "pystr \<Rightarrow> pystr"
  HTML_TAGS_sub :: "pystr \<Rightarrow> pystr"
  MULTI_NL_sub :: "pystr \<Rightarrow> pystr"
  markdown_to_html :: "pystr \<Rightarrow> pystr"
  path_name :: "pystr \<Rightarrow> pystr"
  str_lower :: "pystr \<Rightarrow> pystr"
  str_title :: "pystr \<Rightarrow> pystr"
  float_sub :: "real \<Rightarrow> real \<Rightarrow> real"
  request_str_ok :: "pystr \<Rightarrow> bool"

text \<open>\<^verbatim>\<open>html.unescape\<close> returns its argument when it holds no ampersand.\<close>

definition html_unescape :: "'a host_scheme \<Rightarrow> pystr \<Rightarrow> pystr" where
  "html_unescape h s = (if 38 \<notin> set s then s else charref_sub h s)"

definition html_to_plain :: "'a host_scheme \<Rightarrow> pystr \<Rightarrow> pystr" where
  "html_to_plain h text =
     (if 60 \<notin> set text \<or> 62 \<notin> set text then html_unescape h text
      else MULTI_NL_sub h (html_unescape h
             (HTML_TAGS_sub h (HTML_CLOSE_TO_NL_sub h (HTML_BR_sub h text)))))"

definition tokenize :: "'a host_scheme \<Rightarrow> pystr \<Rightarrow> pystr list" where
  "tokenize h text =
     (let plain = html_to_plain h text;
          raw = filter (\<lambda>seg. seg \<noteq> []) (RE_SPLIT_split plain)
      in concat (map (\<lambda>seg. if str_isspace seg
                               then replicate (count_list seg 10) [10]
                               else [seg]) raw))"

text \<open>
  For the round-trip property: \<^verbatim>\<open>text.split()\<close>, the whitespace-separated words of a text,
  \<^verbatim>\<open>sep.join(xs)\<close>, and the re-joining of the non-whitespace tokens with single spaces.
\<close>

function split_words :: "pystr \<Rightarrow> pystr list" where
  "split_words s =
     (case dropWhile isspace s of
        [] \<Rightarrow> []
      | c # cs \<Rightarrow> takeWhile (\<lambda>x. \<not> isspace x) (c # cs)
                  # split_words (dropWhile (\<lambda>x. \<not> isspace x) (c # cs)))"
  by pat_completeness auto
termination
proof (relation "measure length")
  show "wf (measure length)" by simp
next
  fix s :: pystr and c cs
  assume r: "dropWhile isspace s = c # cs"
  then have nc: "\<not> isspace c" using hd_dropWhile [of isspace s] by auto
  have "length (dropWhile (\<lambda>x. \<not> isspace x) (c # cs)) \<le> length cs"
    using nc by (simp add: length_dropWhile_le)
  also have "\<dots> < length (dropWhile isspace s)" using r by simp
  also have "\<dots> \<le> length s" by (simp add: length_dropWhile_le)
  finally show "(dropWhile (\<lambda>x. \<not> isspace x) (c # cs), s) \<in> measure length" by simp
qed

declare split_words.simps [simp del]

fun join_str :: "pystr \<Rightarrow> pystr list \<Rightarrow> pystr" where
  "join_str sep [] = []"
| "join_str sep [x] = x"
| "join_str sep (x # y # ys) = x @ sep @ join_str sep (y # ys)"

definition rejoin :: "pystr list \<Rightarrow> pystr" where
  "rejoin toks = join_str [32] (filter (\<lambda>t. \<not> str_isspace t) toks)"

text \<open>
  A host for running the model on examples: every library function is the identity, which
  is what the real ones do on the inputs used below (plain lower-case file names and text
  without markup or character references); the subtraction is exact, as it is on the small
  integers used below, and every string is acceptable to the request model.
\<close>

definition host0 :: host where
  "host0 = \<lparr>charref_sub = id, HTML_BR_sub = id, HTML_CLOSE_TO_NL_sub = id, HTML_TAGS_sub = id,
     MULTI_NL_sub = id, markdown_to_html = id, path_name = id, str_lower = id, str_title = id,
     float_sub = (-), request_str_ok = (\<lambda>s. True)\<rparr>"

section \<open>Document store (server.py: \<^verbatim>\<open>DocumentStore\<close>)\<close>

text \<open>
  Exceptions are values: an operation returns the store it leaves behind together with
  either the exception raised or its result. \<open>HTTPException\<close> carries the status code and
  the detail (a message, or the code and payload of a converted error), \<open>FormError\<close> and
  \<open>ButtonError\<close> the code, the status and the \<^verbatim>\<open>retry_in\<close> payload; \<open>RequestValidationError\<close> is what a request model raises on a
  field that violates its declared bounds, \<open>UnicodeEncodeError\<close> what writing a snapshot
  raises on a string that has no UTF-8 encoding.
\<close>

datatype detail = Text pystr | ErrorInfo string "real option"

datatype py_error =
    HTTPException nat detail
  | FormError string nat "real option"
  | ButtonError string nat "real option"
  | RequestValidationError
  | UnicodeEncodeError

definition DEFAULT_SOURCE_NAME :: pystr where
  "DEFAULT_SOURCE_NAME = py ''text.txt''"

record DocState =
  tokens :: "pystr list"
  votes :: "bucket list"
  updated :: "real option"
  source_name :: pystr

definition DocState_default :: DocState where
  "DocState_default =
     \<lparr>tokens = [], votes = [], updated = None, source_name = DEFAULT_SOURCE_NAME\<rparr>"

text \<open>
  A snapshot file is either unreadable (it does not parse) or a JSON object; a field that
  is missing or null reads as the empty value, as \<^verbatim>\<open>raw.get(k) or default\<close> makes it.
\<close>

record doc_payload =
  p_tokens :: "pystr list"
  p_votes :: "bucket list"
  p_updated :: "real option"
  p_sourceName :: pystr

datatype doc_file = Unreadable | Json doc_payload

text \<open>
  The store: the cache \<^verbatim>\<open>_states\<close>, the document ids for which \<^verbatim>\<open>_doc_lock\<close> has created
  a mutex, the lock flags, the snapshot files under the data directory and the source files
  under the documents directory (name to decoded text). The operations are run one at a
  time; the clock value \<^verbatim>\<open>time.time()\<close> is an argument of each operation.
\<close>

record DocumentStore =
  doc_states :: "pystr \<rightharpoonup> DocState"
  doc_locks :: "pystr set"
  lock_flags :: "pystr \<rightharpoonup> bool"
  doc_files :: "pystr \<rightharpoonup> doc_file"
  wwwdocs :: "pystr \<rightharpoonup> pystr"

text \<open>\<^verbatim>\<open>t or time.time()\<close>: \<^verbatim>\<open>None\<close> and \<^verbatim>\<open>0\<close> are falsy.\<close>

definition time_or :: "real option \<Rightarrow> real \<Rightarrow> real" where
  "time_or t now = (case t of None \<Rightarrow> now | Some x \<Rightarrow> if x = 0 then now else x)"

text \<open>\<^verbatim>\<open>_doc_lock\<close>: the document's mutex is created on first use. Holding it has no
  effect of its own in a run of one operation at a time.\<close>

definition doc_lock :: "DocumentStore \<Rightarrow> pystr \<Rightarrow> DocumentStore" where
  "doc_lock st doc_id = st\<lparr>doc_locks := insert doc_id (doc_locks st)\<rparr>"

text \<open>\<^verbatim>\<open>_sanitize_source_name\<close>: the default for \<^verbatim>\<open>None\<close> and the empty name, else the last
  path component.\<close>

definition sanitize_source_name :: "'a host_scheme \<Rightarrow> pystr option \<Rightarrow> pystr" where
  "sanitize_source_name h name =
     (case name of
        None \<Rightarrow> DEFAULT_SOURCE_NAME
      | Some n \<Rightarrow> if n = [] then DEFAULT_SOURCE_NAME else path_name h n)"

text \<open>\<^verbatim>\<open>_ensure_votes_length\<close>: pad the votes with empty maps, or cut them, to the number of
  tokens.\<close>

definition ensure_votes_length :: "DocState \<Rightarrow> DocState" where
  "ensure_votes_length state =
     (let target = length (tokens state); vs = votes state
      in if length vs < target then state\<lparr>votes := vs @ replicate (target - length vs) []\<rparr>
         else if target < length vs then state\<lparr>votes := take target vs\<rparr>
         else state)"

text \<open>\<^verbatim>\<open>_load_state_from_disk\<close>: a missing or unreadable snapshot gives the default state.\<close>

definition load_state_from_disk :: "'a host_scheme \<Rightarrow> DocumentStore \<Rightarrow> pystr \<Rightarrow> DocState" where
  "load_state_from_disk h st doc_id =
     (case doc_files st doc_id of
        None \<Rightarrow> DocState_default
      | Some Unreadable \<Rightarrow> DocState_default
      | Some (Json raw) \<Rightarrow>
          ensure_votes_length
            \<lparr>tokens = p_tokens raw, votes = p_votes raw, updated = p_updated raw,
             source_name = (if p_sourceName raw \<noteq> []
                            then sanitize_source_name h (Some (p_sourceName raw))
                            else DEFAULT_SOURCE_NAME)\<rparr>)"

text \<open>\<^verbatim>\<open>get_state\<close>: the cached state, loading and caching it on first access.\<close>

definition get_state :: "'a host_scheme \<Rightarrow> DocumentStore \<Rightarrow> pystr \<Rightarrow> DocumentStore \<times> DocState" where
  "get_state h st doc_id =
     (case doc_states st doc_id of
        Some state \<Rightarrow> (st, state)
      | None \<Rightarrow>
          (let state = load_state_from_disk h st doc_id
           in (st\<lparr>doc_states := (doc_states st)(doc_id \<mapsto> state)\<rparr>, state)))"

text \<open>\<^verbatim>\<open>save_state\<close>: reconcile the lengths, replace the snapshot file, cache the state.\<close>

definition save_state :: "DocumentStore \<Rightarrow> pystr \<Rightarrow> DocState \<Rightarrow> DocumentStore" where
  "save_state st doc_id state0 =
     (let state = ensure_votes_length state0;
          payload = \<lparr>p_tokens = tokens state, p_votes = votes state,
                     p_updated = updated state, p_sourceName = source_name state\<rparr>
      in st\<lparr>doc_files := (doc_files st)(doc_id \<mapsto> Json payload),
            doc_states := (doc_states st)(doc_id \<mapsto> state)\<rparr>)"

text \<open>\<^verbatim>\<open>_strip_bom\<close>, \<^verbatim>\<open>str.endswith\<close> and \<^verbatim>\<open>is_markdown_name\<close>.\<close>

definition strip_bom :: "pystr \<Rightarrow> pystr" where
  "strip_bom text = filter (\<lambda>c. c \<noteq> 65279) text"

definition endswith :: "pystr \<Rightarrow> pystr \<Rightarrow> bool" where
  "endswith s suffix \<longleftrightarrow>
     length suffix \<le> length s \<and> drop (length s - length suffix) s = suffix"

definition is_markdown_name :: "'a host_scheme \<Rightarrow> pystr \<Rightarrow> bool" where
  "is_markdown_name h name \<longleftrightarrow> name \<noteq> [] \<and> endswith (str_lower h name) (py ''.md'')"

text \<open>\<^verbatim>\<open>read_source_text\<close>: the text of a source file, or the not-found error.\<close>

definition read_source_text :: "'a host_scheme \<Rightarrow> DocumentStore \<Rightarrow> pystr \<Rightarrow> py_error + pystr" where
  "read_source_text h st src_name =
     (let n = sanitize_source_name h (Some src_name);
          name = (if n = [] then DEFAULT_SOURCE_NAME else n)
      in case wwwdocs st name of
           None \<Rightarrow> Inl (HTTPException 404
                         (Text (py ''Source '' @ [39] @ name @ [39] @ py '' not found'')))
         | Some text \<Rightarrow> Inr (strip_bom text))"

text \<open>\<^verbatim>\<open>_tokenize_from_source\<close>: Markdown is rendered first; for Markdown and HTML sources the
  empty and newline tokens are dropped.\<close>

definition tokenize_from_source ::
  "'a host_scheme \<Rightarrow> DocumentStore \<Rightarrow> pystr \<Rightarrow> py_error + (pystr list \<times> pystr)" where
  "tokenize_from_source h st src_name =
     (case read_source_text h st src_name of
        Inl e \<Rightarrow> Inl e
      | Inr t \<Rightarrow>
          (let text = strip_bom t;
               is_md = is_markdown_name h src_name;
               html_like = (is_md \<or> endswith (str_lower h src_name) (py ''.html''));
               toks = (if is_md then tokenize h (strip_bom (markdown_to_html h text))
                       else tokenize h text);
               toks' = (if html_like then filter (\<lambda>tok. tok \<noteq> [] \<and> tok \<noteq> [10]) toks else toks)
           in Inr (toks', src_name)))"

text \<open>\<^verbatim>\<open>_resolve_source_name\<close>: the override, else the stored name, else the default.\<close>

definition resolve_source_name :: "'a host_scheme \<Rightarrow> DocState \<Rightarrow> pystr option \<Rightarrow> pystr" where
  "resolve_source_name h state override =
     (if override \<noteq> None \<and> override \<noteq> Some [] then sanitize_source_name h override
      else if source_name state \<noteq> [] then sanitize_source_name h (Some (source_name state))
      else DEFAULT_SOURCE_NAME)"

text \<open>\<^verbatim>\<open>_ensure_tokens_locked\<close> and \<^verbatim>\<open>ensure_tokens\<close>: a state that has tokens is returned as it
  is; otherwise the resolved source is tokenized and the state saved.\<close>

definition ensure_tokens_locked ::
  "'a host_scheme \<Rightarrow> DocumentStore \<Rightarrow> pystr \<Rightarrow> pystr option \<Rightarrow> real
   \<Rightarrow> DocumentStore \<times> (py_error + DocState)" where
  "ensure_tokens_locked h st doc_id source now =
     (let (st1, state) = get_state h st doc_id
      in if tokens state \<noteq> [] then (st1, Inr state)
         else
           (case tokenize_from_source h st1 (resolve_source_name h state source) of
              Inl e \<Rightarrow> (st1, Inl e)
            | Inr (toks, resolved) \<Rightarrow>
                (let state' = ensure_votes_length
                       (state\<lparr>tokens := toks, source_name := resolved,
                              updated := Some (time_or (updated state) now)\<rparr>);
                     st2 = save_state st1 doc_id state'
                 in (st2, Inr state'))))"

definition ensure_tokens ::
  "'a host_scheme \<Rightarrow> DocumentStore \<Rightarrow> pystr \<Rightarrow> pystr option \<Rightarrow> real
   \<Rightarrow> DocumentStore \<times> (py_error + DocState)" where
  "ensure_tokens h st doc_id source now =
     ensure_tokens_locked h (doc_lock st doc_id) doc_id source now"

text \<open>\<^verbatim>\<open>retokenize\<close>: the source is resolved and tokenized before the mutex is taken and the
  state loaded; an error there leaves the store as it was.\<close>

definition retokenize ::
  "'a host_scheme \<Rightarrow> DocumentStore \<Rightarrow> pystr \<Rightarrow> pystr option \<Rightarrow> real
   \<Rightarrow> DocumentStore \<times> (py_error + DocState)" where
  "retokenize h st doc_id source now =
     (let resolved_name = (if source \<noteq> None \<and> source \<noteq> Some []
                           then sanitize_source_name h source else DEFAULT_SOURCE_NAME)
      in case tokenize_from_source h st resolved_name of
           Inl e \<Rightarrow> (st, Inl e)
         | Inr (toks, resolved) \<Rightarrow>
             (let (st1, state) = get_state h (doc_lock st doc_id) doc_id;
                  state' = state\<lparr>tokens := toks, votes := replicate (length toks) [],
                                 updated := Some now, source_name := resolved\<rparr>
              in (save_state st1 doc_id state', Inr state')))"

text \<open>\<^verbatim>\<open>clear_votes\<close>: every vote map becomes empty; the tokens stay.\<close>

definition clear_votes ::
  "'a host_scheme \<Rightarrow> DocumentStore \<Rightarrow> pystr \<Rightarrow> real \<Rightarrow> DocumentStore \<times> (py_error + DocState)" where
  "clear_votes h st doc_id now =
     (case ensure_tokens_locked h (doc_lock st doc_id) doc_id None now of
        (st1, Inl e) \<Rightarrow> (st1, Inl e)
      | (st1, Inr state) \<Rightarrow>
          (let state' = state\<lparr>votes := replicate (length (tokens state)) [], updated := Some now\<rparr>
           in (save_state st1 doc_id state', Inr state')))"

text \<open>\<^verbatim>\<open>is_locked\<close> and \<^verbatim>\<open>set_locked\<close>: the in-memory lock flag, false by default.\<close>

definition is_locked :: "DocumentStore \<Rightarrow> pystr \<Rightarrow> bool" where
  "is_locked st doc_id = (case lock_flags st doc_id of None \<Rightarrow> False | Some v \<Rightarrow> v)"

definition set_locked :: "DocumentStore \<Rightarrow> pystr \<Rightarrow> bool \<Rightarrow> DocumentStore" where
  "set_locked st doc_id v = st\<lparr>lock_flags := (lock_flags st)(doc_id \<mapsto> v)\<rparr>"

text \<open>
  The body of the loop of \<^verbatim>\<open>apply_highlight\<close> at one position: the new bucket and whether
  it changed.
\<close>

definition vote_at :: "bucket \<Rightarrow> pystr \<Rightarrow> pystr \<Rightarrow> bucket \<times> bool" where
  "vote_at b client_id color =
     (if color \<noteq> [] then
        (if dict_get b client_id \<noteq> Some color then (dict_set b client_id color, True)
         else (b, False))
      else
        (if dict_get b client_id \<noteq> None then (dict_pop b client_id, True) else (b, False)))"

definition highlight_step ::
  "pystr \<Rightarrow> pystr \<Rightarrow> bucket list \<times> bool \<Rightarrow> nat \<Rightarrow> bucket list \<times> bool" where
  "highlight_step client_id color acc idx =
     (let (b, c) = vote_at (fst acc ! idx) client_id color
      in ((fst acc)[idx := b], snd acc \<or> c))"

text \<open>Clamping both ends into the token range and ordering them.\<close>

definition clamp_range :: "int \<Rightarrow> int \<Rightarrow> int \<Rightarrow> int \<times> int" where
  "clamp_range n start end' =
     (let s = max 0 (min start (n - 1));
          e = max 0 (min end' (n - 1))
      in if e < s then (e, s) else (s, e))"

text \<open>The loop \<^verbatim>\<open>for idx in range(start, end + 1)\<close>.\<close>

definition highlight_votes ::
  "pystr \<Rightarrow> pystr \<Rightarrow> bucket list \<Rightarrow> int \<Rightarrow> int \<Rightarrow> bucket list \<times> bool" where
  "highlight_votes client_id color vs lo hi =
     foldl (highlight_step client_id color) (vs, False) (map nat [lo..hi])"

text \<open>\<^verbatim>\<open>apply_highlight\<close>. The bucket objects are mutated in place, so the cached state carries the
  new votes whether or not the call goes on to save.\<close>

definition apply_highlight ::
  "'a host_scheme \<Rightarrow> DocumentStore \<Rightarrow> pystr \<Rightarrow> pystr \<Rightarrow> int \<Rightarrow> int \<Rightarrow> pystr \<Rightarrow> real option
   \<Rightarrow> real \<Rightarrow> DocumentStore \<times> (py_error + bool)" where
  "apply_highlight h st doc_id client_id start end' color timestamp now =
     (if is_locked st doc_id then (st, Inr False)
      else
        (case ensure_tokens_locked h (doc_lock st doc_id) doc_id None now of
           (st1, Inl e) \<Rightarrow> (st1, Inl e)
         | (st1, Inr state) \<Rightarrow>
             if tokens state = [] then (st1, Inr False)
             else
               (let (lo, hi) = clamp_range (int (length (tokens state))) start end';
                    state1 = ensure_votes_length state;
                    (vs, changed) = highlight_votes client_id color (votes state1) lo hi;
                    state2 = state1\<lparr>votes := vs\<rparr>
                in if changed
                   then (save_state st1 doc_id (state2\<lparr>updated := Some (time_or timestamp now)\<rparr>),
                         Inr True)
                   else (st1\<lparr>doc_states := (doc_states st1)(doc_id \<mapsto> state2)\<rparr>, Inr False))))"

text \<open>\<^verbatim>\<open>clear_client\<close>: the client's vote is removed at every position.\<close>

definition clear_client ::
  "'a host_scheme \<Rightarrow> DocumentStore \<Rightarrow> pystr \<Rightarrow> pystr \<Rightarrow> real option \<Rightarrow> real
   \<Rightarrow> DocumentStore \<times> (py_error + bool)" where
  "clear_client h st doc_id client_id timestamp now =
     (if is_locked st doc_id then (st, Inr False)
      else
        (case ensure_tokens_locked h (doc_lock st doc_id) doc_id None now of
           (st1, Inl e) \<Rightarrow> (st1, Inl e)
         | (st1, Inr state) \<Rightarrow>
             (let changed = list_ex (\<lambda>b. dict_get b client_id \<noteq> None) (votes state);
                  state2 = state\<lparr>votes := map (\<lambda>b. dict_pop b client_id) (votes state)\<rparr>
              in if changed
                 then (save_state st1 doc_id (state2\<lparr>updated := Some (time_or timestamp now)\<rparr>),
                       Inr True)
                 else (st1\<lparr>doc_states := (doc_states st1)(doc_id \<mapsto> state2)\<rparr>, Inr False))))"


text \<open>
  The operations of the store as data, to run arbitrary sequences of calls. \<open>run_op\<close>
  gives the store after the call and the document state the call returns, if it returns one.
\<close>

datatype doc_op =
    GetState pystr
  | EnsureTokens pystr "pystr option" real
  | Retokenize pystr "pystr option" real
  | ClearVotes pystr real
  | ApplyHighlight pystr pystr int int pystr "real option" real
  | ClearClient pystr pystr "real option" real
  | SaveState pystr DocState
  | SetLocked pystr bool

definition returned_state :: "py_error + DocState \<Rightarrow> DocState option" where
  "returned_state r = (case r of Inl e \<Rightarrow> None | Inr s \<Rightarrow> Some s)"

fun run_op :: "'a host_scheme \<Rightarrow> DocumentStore \<Rightarrow> doc_op \<Rightarrow> DocumentStore \<times> DocState option" where
  "run_op h st (GetState d) = (let (st', s) = get_state h st d in (st', Some s))"
| "run_op h st (EnsureTokens d src now) =
     (let (st', r) = ensure_tokens h st d src now in (st', returned_state r))"
| "run_op h st (Retokenize d src now) =
     (let (st', r) = retokenize h st d src now in (st', returned_state r))"
| "run_op h st (ClearVotes d now) =
     (let (st', r) = clear_votes h st d now in (st', returned_state r))"
| "run_op h st (ApplyHighlight d c s e col t now) =
     (fst (apply_highlight h st d c s e col t now), None)"
| "run_op h st (ClearClient d c t now) = (fst (clear_client h st d c t now), None)"
| "run_op h st (SaveState d s) = (save_state st d s, None)"
| "run_op h st (SetLocked d v) = (set_locked st d v, None)"

definition run_ops :: "'a host_scheme \<Rightarrow> DocumentStore \<Rightarrow> doc_op list \<Rightarrow> DocumentStore" where
  "run_ops h st ops = foldl (\<lambda>s op. fst (run_op h s op)) st ops"

text \<open>The invariant: in every cached document state, votes and tokens have the same length.\<close>

definition state_ok :: "DocState \<Rightarrow> bool" where
  "state_ok s \<longleftrightarrow> length (votes s) = length (tokens s)"

definition votes_inv :: "DocumentStore \<Rightarrow> bool" where
  "votes_inv st \<longleftrightarrow> (\<forall>d s. doc_states st d = Some s \<longrightarrow> state_ok s)"

text \<open>Example stores and call sequences, for running the model on concrete inputs.\<close>

definition store0 :: DocumentStore where
  "store0 = \<lparr>doc_states = Map.empty, doc_locks = {}, lock_flags = Map.empty,
             doc_files = Map.empty,
             wwwdocs = [py ''text.txt'' \<mapsto> py ''The quick fox'',
                        py ''notes.txt'' \<mapsto> py ''beta gamma'']\<rparr>"


definition store_mismatch :: DocumentStore where
  "store_mismatch =
     store0\<lparr>doc_files := [py ''doc2'' \<mapsto>
        Json \<lparr>p_tokens = [py ''x'', py ''y'', py ''z''], p_votes = [[(py ''A'', py ''red'')]],
              p_updated = None, p_sourceName = []\<rparr>]\<rparr>"

definition example_ops :: "doc_op list" where
  "example_ops =
     [GetState (py ''doc2''),
      ApplyHighlight (py ''doc1'') (py ''A'') 0 1 (py ''red'') None 1,
      Retokenize (py ''doc1'') (Some (py ''notes.txt'')) 2,
      ApplyHighlight (py ''doc1'') (py ''B'') 5 0 (py ''green'') None 3,
      ClearClient (py ''doc2'') (py ''A'') None 4]"

definition scenario_A :: DocumentStore where
  "scenario_A = fst (apply_highlight host0 store0 (py ''doc1'') (py ''A'') 0 1 (py ''red'') None 1)"

definition scenario_AB :: DocumentStore where
  "scenario_AB =
     fst (apply_highlight host0 scenario_A (py ''doc1'') (py ''B'') 1 1 (py ''green'') None 2)"

definition store_notes :: DocumentStore where
  "store_notes = fst (ensure_tokens host0 store0 (py ''doc1'') (Some (py ''notes.txt'')) 1)"

section \<open>Forms (server.py: \<^verbatim>\<open>FormManager\<close>, \<^verbatim>\<open>FormSubmitRequest\<close>, \<^verbatim>\<open>api_forms_submit\<close>)\<close>

definition DEFAULT_FORM_ID :: pystr where
  "DEFAULT_FORM_ID = py ''feedback''"

definition DEFAULT_FORM_QUESTION :: pystr where
  "DEFAULT_FORM_QUESTION = py ''Share your thoughts with us.''"

definition MAX_FORM_ANSWER_LENGTH :: nat where
  "MAX_FORM_ANSWER_LENGTH = 1024"

definition MAX_FORM_RESPONSES :: nat where
  "MAX_FORM_RESPONSES = 2000"

text \<open>\<^verbatim>\<open>s.strip()\<close>: leading and trailing whitespace removed.\<close>

definition py_strip :: "pystr \<Rightarrow> pystr" where
  "py_strip s = rev (dropWhile isspace (rev (dropWhile isspace s)))"

text \<open>\<^verbatim>\<open>xs[-n:]\<close> for a positive \<open>n\<close>: the last \<open>n\<close> elements.\<close>

definition keep_last :: "nat \<Rightarrow> 'a list \<Rightarrow> 'a list" where
  "keep_last n xs = drop (length xs - n) xs"

record FormResponse =
  r_seq :: int
  r_clientId :: pystr
  r_answer :: pystr
  r_question :: pystr
  r_submitted :: real

record FormState =
  form_id :: pystr
  form_question :: pystr
  form_cooldown :: real
  form_allow_repeat :: bool
  form_locked :: bool
  form_responses :: "FormResponse list"
  form_last_by_client :: "(pystr, real) dict"
  form_next_seq :: int
  form_updated :: "real option"

text \<open>
  A form snapshot as \<^verbatim>\<open>_load_state\<close> reads it: a field that may be missing is an option (or
  empty, where the source reads it with \<^verbatim>\<open>or\<close>); a stored response may lack its \<^verbatim>\<open>seq\<close>.
\<close>

record raw_response =
  rr_seq :: "int option"
  rr_clientId :: pystr
  rr_answer :: pystr
  rr_question :: pystr
  rr_submitted :: real

record form_payload =
  fp_question :: pystr
  fp_cooldown :: real
  fp_allowRepeat :: "bool option"
  fp_locked :: "bool option"
  fp_responses :: "raw_response list"
  fp_lastByClient :: "(pystr, real) dict"
  fp_nextSeq :: "int option"
  fp_updated :: "real option"

datatype form_file = FormUnreadable | FormJson form_payload

record FormManager =
  form_states :: "pystr \<rightharpoonup> FormState"
  form_locks :: "pystr set"
  form_files :: "pystr \<rightharpoonup> form_file"

text \<open>\<^verbatim>\<open>_lock\<close>, \<^verbatim>\<open>_default_state\<close>, \<^verbatim>\<open>_load_state\<close>, \<^verbatim>\<open>_ensure_loaded\<close> and \<^verbatim>\<open>_save_state\<close> of the form
  manager.\<close>

definition form_lock :: "FormManager \<Rightarrow> pystr \<Rightarrow> FormManager" where
  "form_lock fm fid = fm\<lparr>form_locks := insert fid (form_locks fm)\<rparr>"

definition form_default_state :: "pystr \<Rightarrow> FormState" where
  "form_default_state fid =
     \<lparr>form_id = fid, form_question = DEFAULT_FORM_QUESTION, form_cooldown = 0,
      form_allow_repeat = True, form_locked = False, form_responses = [],
      form_last_by_client = [], form_next_seq = 1, form_updated = None\<rparr>"

definition load_response :: "int \<times> raw_response \<Rightarrow> FormResponse" where
  "load_response p =
     \<lparr>r_seq = (case rr_seq (snd p) of None \<Rightarrow> fst p | Some s \<Rightarrow> s),
      r_clientId = rr_clientId (snd p), r_answer = rr_answer (snd p),
      r_question = rr_question (snd p), r_submitted = rr_submitted (snd p)\<rparr>"

definition form_load_state :: "FormManager \<Rightarrow> pystr \<Rightarrow> FormState" where
  "form_load_state fm fid =
     (case form_files fm fid of
        None \<Rightarrow> form_default_state fid
      | Some FormUnreadable \<Rightarrow> form_default_state fid
      | Some (FormJson raw) \<Rightarrow>
          (let q = py_strip (if fp_question raw = [] then DEFAULT_FORM_QUESTION
                             else fp_question raw);
               rs = map load_response (zip [1..int (length (fp_responses raw))] (fp_responses raw))
           in \<lparr>form_id = fid,
               form_question = (if q = [] then DEFAULT_FORM_QUESTION else q),
               form_cooldown = fp_cooldown raw,
               form_allow_repeat = (case fp_allowRepeat raw of None \<Rightarrow> True | Some b \<Rightarrow> b),
               form_locked = (case fp_locked raw of None \<Rightarrow> False | Some b \<Rightarrow> b),
               form_responses = rs,
               form_last_by_client = fp_lastByClient raw,
               form_next_seq = (case fp_nextSeq raw of
                                  None \<Rightarrow> int (length rs) + 1
                                | Some n \<Rightarrow> if n = 0 then int (length rs) + 1 else n),
               form_updated = fp_updated raw\<rparr>))"

definition form_ensure_loaded :: "FormManager \<Rightarrow> pystr \<Rightarrow> FormManager \<times> FormState" where
  "form_ensure_loaded fm fid =
     (case form_states fm fid of
        Some state \<Rightarrow> (fm, state)
      | None \<Rightarrow>
          (let state = form_load_state fm fid
           in (fm\<lparr>form_states := (form_states fm)(fid \<mapsto> state)\<rparr>, state)))"

definition save_response :: "FormResponse \<Rightarrow> raw_response" where
  "save_response r =
     \<lparr>rr_seq = Some (r_seq r), rr_clientId = r_clientId r, rr_answer = r_answer r,
      rr_question = r_question r, rr_submitted = r_submitted r\<rparr>"

definition form_snapshot :: "FormState \<Rightarrow> form_payload" where
  "form_snapshot state =
     \<lparr>fp_question = form_question state, fp_cooldown = form_cooldown state,
      fp_allowRepeat = Some (form_allow_repeat state), fp_locked = Some (form_locked state),
      fp_responses = map save_response (form_responses state),
      fp_lastByClient = form_last_by_client state,
      fp_nextSeq = Some (form_next_seq state), fp_updated = form_updated state\<rparr>"

text \<open>
  The snapshot is written as UTF-8 with \<^verbatim>\<open>ensure_ascii=False\<close>, so a string that holds a
  surrogate code point (U+D800 to U+DFFF) cannot be written: \<^verbatim>\<open>json.dump\<close> raises, the
  snapshot file is not replaced and the cache entry is not assigned. The strings of the form
  payload are the form id, the question, the client id, answer and question of every
  response, and the keys of the last-action map.
\<close>

definition utf8_encodable :: "pystr \<Rightarrow> bool" where
  "utf8_encodable s \<longleftrightarrow> list_all (\<lambda>c. \<not> (55296 \<le> c \<and> c \<le> 57343)) s"

definition form_payload_encodable :: "pystr \<Rightarrow> FormState \<Rightarrow> bool" where
  "form_payload_encodable fid state \<longleftrightarrow>
     utf8_encodable fid \<and> utf8_encodable (form_question state) \<and>
     list_all (\<lambda>r. utf8_encodable (r_clientId r) \<and> utf8_encodable (r_answer r) \<and>
                    utf8_encodable (r_question r)) (form_responses state) \<and>
     list_all (\<lambda>kv. utf8_encodable (fst kv)) (form_last_by_client state)"

definition form_save_state ::
  "FormManager \<Rightarrow> pystr \<Rightarrow> FormState \<Rightarrow> FormManager \<times> (py_error + unit)" where
  "form_save_state fm fid state =
     (if form_payload_encodable fid state
      then (fm\<lparr>form_files := (form_files fm)(fid \<mapsto> FormJson (form_snapshot state)),
               form_states := (form_states fm)(fid \<mapsto> state)\<rparr>, Inr ())
      else (fm, Inl UnicodeEncodeError))"

text \<open>
  The cooldown test that \<^verbatim>\<open>submit\<close> and \<^verbatim>\<open>fire\<close> share: with a positive cooldown and a
  recorded last action less than the cooldown ago, the \<^verbatim>\<open>retry_in\<close> payload of the error.
  Both subtractions are the host's float subtraction.
\<close>

definition cooldown_retry ::
  "'a host_scheme \<Rightarrow> real \<Rightarrow> (pystr, real) dict \<Rightarrow> pystr \<Rightarrow> real \<Rightarrow> real option" where
  "cooldown_retry h cooldown last_by_client client_id now =
     (case dict_get last_by_client client_id of
        None \<Rightarrow> None
      | Some t \<Rightarrow>
          (let delta = float_sub h now t
           in if 0 < cooldown \<and> delta < cooldown
              then Some (max 0 (float_sub h cooldown delta))
              else None))"

text \<open>
  The three business checks of \<^verbatim>\<open>submit\<close>, in the source's order: locked, cooldown,
  repeat. The result is the error raised, if any.
\<close>

definition submit_checks ::
  "'a host_scheme \<Rightarrow> FormState \<Rightarrow> pystr \<Rightarrow> real \<Rightarrow> py_error option" where
  "submit_checks h state client_id now =
     (if form_locked state then Some (FormError ''locked'' 423 None)
      else
        (case cooldown_retry h (form_cooldown state) (form_last_by_client state) client_id now of
           Some retry \<Rightarrow> Some (FormError ''cooldown'' 429 (Some retry))
         | None \<Rightarrow>
             if \<not> form_allow_repeat state \<and>
                list_ex (\<lambda>item. r_clientId item = client_id) (form_responses state)
             then Some (FormError ''repeat_not_allowed'' 409 None)
             else None))"

text \<open>\<^verbatim>\<open>FormManager.submit\<close>: strip, reject the empty answer, cut to the maximum length, then
  load the form, run the checks and append the record. The loaded state is the cached
  object and is changed in place, so the cache holds the new state before the snapshot is
  written, and keeps it when the write raises.\<close>

definition submit ::
  "'a host_scheme \<Rightarrow> FormManager \<Rightarrow> pystr \<Rightarrow> pystr \<Rightarrow> pystr \<Rightarrow> real
   \<Rightarrow> FormManager \<times> (py_error + FormResponse)" where
  "submit h fm fid client_id answer now =
     (let trimmed = py_strip answer
      in if trimmed = [] then (fm, Inl (FormError ''empty_answer'' 400 None))
         else
           (let trimmed = (if MAX_FORM_ANSWER_LENGTH < length trimmed
                           then take MAX_FORM_ANSWER_LENGTH trimmed else trimmed);
                (fm1, state) = form_ensure_loaded (form_lock fm fid) fid
            in case submit_checks h state client_id now of
                 Some e \<Rightarrow> (fm1, Inl e)
               | None \<Rightarrow>
                   (let seq = form_next_seq state;
                        record = \<lparr>r_seq = seq, r_clientId = client_id, r_answer = trimmed,
                                  r_question = form_question state, r_submitted = now\<rparr>;
                        rs = form_responses state @ [record];
                        rs = (if MAX_FORM_RESPONSES < length rs
                              then keep_last MAX_FORM_RESPONSES rs else rs);
                        state' = state\<lparr>form_responses := rs,
                                   form_last_by_client :=
                                     dict_set (form_last_by_client state) client_id now,
                                   form_next_seq := seq + 1, form_updated := Some now\<rparr>;
                        fm2 = fm1\<lparr>form_states := (form_states fm1)(fid \<mapsto> state')\<rparr>
                    in case form_save_state fm2 fid state' of
                         (fm3, Inl e) \<Rightarrow> (fm3, Inl e)
                       | (fm3, Inr u) \<Rightarrow> (fm3, Inr record))))"

text \<open>
  The request model of the submit endpoint: \<^verbatim>\<open>clientId\<close> has 1 to 128 characters and
  \<^verbatim>\<open>answer\<close> 1 to \<^verbatim>\<open>MAX_FORM_ANSWER_LENGTH\<close>; a body outside these bounds, or with a value
  the model does not take for a string, is rejected before the handler runs.
\<close>

record FormSubmitRequest =
  formId :: "pystr option"
  clientId :: pystr
  answer :: pystr

definition FormSubmitRequest_valid :: "'a host_scheme \<Rightarrow> FormSubmitRequest \<Rightarrow> bool" where
  "FormSubmitRequest_valid h p \<longleftrightarrow>
     request_str_ok h (clientId p) \<and> request_str_ok h (answer p) \<and>
     (case formId p of None \<Rightarrow> True | Some f \<Rightarrow> request_str_ok h f) \<and>
     1 \<le> length (clientId p) \<and> length (clientId p) \<le> 128 \<and>
     1 \<le> length (answer p) \<and> length (answer p) \<le> MAX_FORM_ANSWER_LENGTH"

text \<open>The identifier characters \<^verbatim>\<open>[A-Za-z0-9_.-]\<close> and \<^verbatim>\<open>sanitize_form_id\<close>.\<close>

definition id_char :: "int \<Rightarrow> bool" where
  "id_char c \<longleftrightarrow>
     (65 \<le> c \<and> c \<le> 90) \<or> (97 \<le> c \<and> c \<le> 122) \<or> (48 \<le> c \<and> c \<le> 57) \<or>
     c = 95 \<or> c = 46 \<or> c = 45"

definition sanitize_form_id :: "pystr option \<Rightarrow> pystr" where
  "sanitize_form_id raw =
     (let fid = py_strip (case raw of None \<Rightarrow> DEFAULT_FORM_ID
                          | Some r \<Rightarrow> if r = [] then DEFAULT_FORM_ID else r)
      in if fid \<noteq> [] \<and> length fid \<le> 64 \<and> list_all id_char fid then fid
         else (let cleaned = take 64 (filter id_char fid)
               in if cleaned = [] then DEFAULT_FORM_ID else cleaned))"

text \<open>\<^verbatim>\<open>_form_error_to_http\<close> and the handler \<^verbatim>\<open>api_forms_submit\<close>.\<close>

definition form_error_to_http :: "py_error \<Rightarrow> py_error" where
  "form_error_to_http e =
     (case e of FormError code status payload \<Rightarrow> HTTPException status (ErrorInfo code payload)
      | _ \<Rightarrow> e)"

definition api_forms_submit ::
  "'a host_scheme \<Rightarrow> FormManager \<Rightarrow> FormSubmitRequest \<Rightarrow> real
   \<Rightarrow> FormManager \<times> (py_error + pystr \<times> FormResponse)" where
  "api_forms_submit h fm payload now =
     (if \<not> FormSubmitRequest_valid h payload then (fm, Inl RequestValidationError)
      else
        (let fid = sanitize_form_id (formId payload);
             client_id = py_strip (clientId payload)
         in if client_id = []
            then (fm, Inl (HTTPException 400 (ErrorInfo ''invalid_client'' None)))
            else
              (case submit h fm fid client_id (answer payload) now of
                 (fm', Inl e) \<Rightarrow> (fm', Inl (form_error_to_http e))
               | (fm', Inr record) \<Rightarrow> (fm', Inr (fid, record)))))"

section \<open>Button panels (server.py: \<^verbatim>\<open>ButtonManager\<close>)\<close>

definition MAX_BUTTON_EVENTS :: nat where
  "MAX_BUTTON_EVENTS = 1000"

record ButtonInfo =
  b_label :: pystr
  b_minus :: int
  b_plus :: int

record ButtonEvent =
  e_seq :: int
  e_buttonId :: pystr
  e_label :: pystr
  e_direction :: pystr
  e_clientId :: pystr
  e_timestamp :: real

record ButtonPanelState =
  panel_id :: pystr
  panel_buttons :: "(pystr, ButtonInfo) dict"
  panel_events :: "ButtonEvent list"
  panel_locked :: bool
  panel_cooldown :: real
  panel_last_by_client :: "(pystr, real) dict"
  panel_next_seq :: int
  panel_updated :: "real option"

text \<open>A panel snapshot as \<^verbatim>\<open>_load_state\<close> reads it; missing fields are options.\<close>

record raw_button =
  rb_label :: "pystr option"
  rb_minus :: "int option"
  rb_plus :: "int option"

record raw_event =
  re_seq :: "int option"
  re_buttonId :: pystr
  re_label :: pystr
  re_direction :: pystr
  re_clientId :: pystr
  re_timestamp :: real

record panel_payload =
  bp_buttons :: "(pystr, raw_button) dict"
  bp_events :: "raw_event list"
  bp_locked :: "bool option"
  bp_cooldown :: real
  bp_lastByClient :: "(pystr, real) dict"
  bp_nextSeq :: "int option"
  bp_updated :: "real option"

datatype panel_file = PanelUnreadable | PanelJson panel_payload

record ButtonManager =
  panel_states :: "pystr \<rightharpoonup> ButtonPanelState"
  panel_locks :: "pystr set"
  panel_files :: "pystr \<rightharpoonup> panel_file"

text \<open>\<^verbatim>\<open>_lock\<close>, \<^verbatim>\<open>_default_buttons\<close> and \<^verbatim>\<open>_default_state\<close> of the button manager.\<close>

definition panel_lock :: "ButtonManager \<Rightarrow> pystr \<Rightarrow> ButtonManager" where
  "panel_lock bm pid = bm\<lparr>panel_locks := insert pid (panel_locks bm)\<rparr>"

definition default_buttons :: "(pystr, ButtonInfo) dict" where
  "default_buttons =
     [(py ''suspension'', \<lparr>b_label = py ''Suspension'', b_minus = 0, b_plus = 0\<rparr>),
      (py ''extension'', \<lparr>b_label = py ''Extension'', b_minus = 0, b_plus = 0\<rparr>),
      (py ''reversal'', \<lparr>b_label = py ''Reversal'', b_minus = 0, b_plus = 0\<rparr>),
      (py ''speed'', \<lparr>b_label = py ''Speed'', b_minus = 0, b_plus = 0\<rparr>)]"

definition panel_default_state :: "pystr \<Rightarrow> ButtonPanelState" where
  "panel_default_state pid =
     \<lparr>panel_id = pid, panel_buttons = default_buttons, panel_events = [], panel_locked = False,
      panel_cooldown = 0, panel_last_by_client = [], panel_next_seq = 1, panel_updated = None\<rparr>"

text \<open>
  One step of the loop over the loaded buttons: \<^verbatim>\<open>setdefault\<close> keeps an entry that is
  there and appends a new one otherwise, then the three fields are overwritten.
\<close>

definition load_button ::
  "'a host_scheme \<Rightarrow> (pystr, ButtonInfo) dict \<Rightarrow> pystr \<times> raw_button \<Rightarrow> (pystr, ButtonInfo) dict" where
  "load_button h buttons p =
     (let entry_label = (case dict_get buttons (fst p) of
                           Some entry \<Rightarrow> b_label entry
                         | None \<Rightarrow> (case rb_label (snd p) of Some l \<Rightarrow> l
                                    | None \<Rightarrow> str_title h (fst p)))
      in dict_set buttons (fst p)
           \<lparr>b_label = (case rb_label (snd p) of Some l \<Rightarrow> l | None \<Rightarrow> entry_label),
            b_minus = (case rb_minus (snd p) of Some n \<Rightarrow> n | None \<Rightarrow> 0),
            b_plus = (case rb_plus (snd p) of Some n \<Rightarrow> n | None \<Rightarrow> 0)\<rparr>)"

text \<open>\<^verbatim>\<open>_load_state\<close>, \<^verbatim>\<open>_ensure_loaded\<close> and \<^verbatim>\<open>_save_state\<close> of the button manager.\<close>

definition load_event :: "int \<times> raw_event \<Rightarrow> ButtonEvent" where
  "load_event p =
     \<lparr>e_seq = (case re_seq (snd p) of None \<Rightarrow> fst p | Some s \<Rightarrow> s),
      e_buttonId = re_buttonId (snd p), e_label = re_label (snd p),
      e_direction = re_direction (snd p), e_clientId = re_clientId (snd p),
      e_timestamp = re_timestamp (snd p)\<rparr>"

definition panel_load_state :: "'a host_scheme \<Rightarrow> ButtonManager \<Rightarrow> pystr \<Rightarrow> ButtonPanelState" where
  "panel_load_state h bm pid =
     (case panel_files bm pid of
        None \<Rightarrow> panel_default_state pid
      | Some PanelUnreadable \<Rightarrow> panel_default_state pid
      | Some (PanelJson raw) \<Rightarrow>
          (let es = map load_event (zip [1..int (length (bp_events raw))] (bp_events raw))
           in \<lparr>panel_id = pid,
               panel_buttons = foldl (load_button h) default_buttons (bp_buttons raw),
               panel_events = es,
               panel_locked = (case bp_locked raw of None \<Rightarrow> False | Some b \<Rightarrow> b),
               panel_cooldown = bp_cooldown raw,
               panel_last_by_client = bp_lastByClient raw,
               panel_next_seq = (case bp_nextSeq raw of
                                   None \<Rightarrow> int (length es) + 1
                                 | Some n \<Rightarrow> if n = 0 then int (length es) + 1 else n),
               panel_updated = bp_updated raw\<rparr>))"

definition panel_ensure_loaded ::
  "'a host_scheme \<Rightarrow> ButtonManager \<Rightarrow> pystr \<Rightarrow> ButtonManager \<times> ButtonPanelState" where
  "panel_ensure_loaded h bm pid =
     (case panel_states bm pid of
        Some state \<Rightarrow> (bm, state)
      | None \<Rightarrow>
          (let state = panel_load_state h bm pid
           in (bm\<lparr>panel_states := (panel_states bm)(pid \<mapsto> state)\<rparr>, state)))"

definition save_button :: "pystr \<times> ButtonInfo \<Rightarrow> pystr \<times> raw_button" where
  "save_button p =
     (fst p, \<lparr>rb_label = Some (b_label (snd p)), rb_minus = Some (b_minus (snd p)),
              rb_plus = Some (b_plus (snd p))\<rparr>)"

definition save_event :: "ButtonEvent \<Rightarrow> raw_event" where
  "save_event e =
     \<lparr>re_seq = Some (e_seq e), re_buttonId = e_buttonId e, re_label = e_label e,
      re_direction = e_direction e, re_clientId = e_clientId e, re_timestamp = e_timestamp e\<rparr>"

definition panel_save_state :: "ButtonManager \<Rightarrow> pystr \<Rightarrow> ButtonPanelState \<Rightarrow> ButtonManager" where
  "panel_save_state bm pid state =
     (let payload =
            \<lparr>bp_buttons = map save_button (panel_buttons state),
             bp_events = map save_event (panel_events state),
             bp_locked = Some (panel_locked state), bp_cooldown = panel_cooldown state,
             bp_lastByClient = panel_last_by_client state,
             bp_nextSeq = Some (panel_next_seq state), bp_updated = panel_updated state\<rparr>
      in bm\<lparr>panel_files := (panel_files bm)(pid \<mapsto> PanelJson payload),
            panel_states := (panel_states bm)(pid \<mapsto> state)\<rparr>)"

text \<open>\<^verbatim>\<open>ButtonManager.fire\<close>: the direction is validated first, then the panel is loaded and the
  locked flag, the button id and the cooldown are checked, in this order.\<close>

definition fire ::
  "'a host_scheme \<Rightarrow> ButtonManager \<Rightarrow> pystr \<Rightarrow> pystr \<Rightarrow> pystr \<Rightarrow> pystr \<Rightarrow> real
   \<Rightarrow> ButtonManager \<times> (py_error + ButtonEvent)" where
  "fire h bm pid client_id button_id direction now =
     (let direction_norm = str_lower h direction
      in if direction_norm \<noteq> py ''minus'' \<and> direction_norm \<noteq> py ''plus''
         then (bm, Inl (ButtonError ''invalid_direction'' 400 None))
         else
           (let (bm1, state) = panel_ensure_loaded h (panel_lock bm pid) pid
            in if panel_locked state then (bm1, Inl (ButtonError ''locked'' 423 None))
               else
                 (case dict_get (panel_buttons state) button_id of
                    None \<Rightarrow> (bm1, Inl (ButtonError ''unknown_button'' 404 None))
                  | Some info \<Rightarrow>
                      (case cooldown_retry h (panel_cooldown state) (panel_last_by_client state)
                              client_id now of
                         Some retry \<Rightarrow> (bm1, Inl (ButtonError ''cooldown'' 429 (Some retry)))
                       | None \<Rightarrow>
                           (let info' = (if direction_norm = py ''minus''
                                         then info\<lparr>b_minus := b_minus info + 1\<rparr>
                                         else info\<lparr>b_plus := b_plus info + 1\<rparr>);
                                seq = panel_next_seq state;
                                event = \<lparr>e_seq = seq, e_buttonId = button_id,
                                         e_label = b_label info', e_direction = direction_norm,
                                         e_clientId = client_id, e_timestamp = now\<rparr>;
                                es = panel_events state @ [event];
                                es = (if MAX_BUTTON_EVENTS < length es
                                      then keep_last MAX_BUTTON_EVENTS es else es);
                                state' = state\<lparr>panel_buttons :=
                                             dict_set (panel_buttons state) button_id info',
                                           panel_events := es,
                                           panel_last_by_client :=
                                             dict_set (panel_last_by_client state) client_id now,
                                           panel_next_seq := seq + 1,
                                           panel_updated := Some now\<rparr>
                            in (panel_save_state bm1 pid state', Inr event))))))"

text \<open>Example managers, for running the model on concrete inputs.\<close>

definition forms0 :: FormManager where
  "forms0 = \<lparr>form_states = Map.empty, form_locks = {}, form_files = Map.empty\<rparr>"

definition panels0 :: ButtonManager where
  "panels0 = \<lparr>panel_states = Map.empty, panel_locks = {}, panel_files = Map.empty\<rparr>"

definition panels1 :: ButtonManager where
  "panels1 = fst (fire host0 panels0 (py ''main'') (py ''c1'') (py ''speed'') (py ''plus'') 5)"

definition panel_state1 :: ButtonPanelState where
  "panel_state1 =
     \<lparr>panel_id = py ''main'',
      panel_buttons =
        [(py ''suspension'', \<lparr>b_label = py ''Suspension'', b_minus = 0, b_plus = 0\<rparr>),
         (py ''extension'', \<lparr>b_label = py ''Extension'', b_minus = 0, b_plus = 0\<rparr>),
         (py ''reversal'', \<lparr>b_label = py ''Reversal'', b_minus = 0, b_plus = 0\<rparr>),
         (py ''speed'', \<lparr>b_label = py ''Speed'', b_minus = 0, b_plus = 1\<rparr>)],
      panel_events =
        [\<lparr>e_seq = 1, e_buttonId = py ''speed'', e_label = py ''Speed'',
          e_direction = py ''plus'', e_clientId = py ''c1'', e_timestamp = 5\<rparr>],
      panel_locked = False, panel_cooldown = 0,
      panel_last_by_client = [(py ''c1'', 5)], panel_next_seq = 2, panel_updated = Some 5\<rparr>"

text \<open>
  The default form after one accepted submission of 1030 letters, and after a submission
  of one surrogate code point.
\<close>

definition form_state1 :: FormState where
  "form_state1 =
     \<lparr>form_id = py ''feedback'', form_question = DEFAULT_FORM_QUESTION, form_cooldown = 0,
      form_allow_repeat = True, form_locked = False,
      form_responses =
        [\<lparr>r_seq = 1, r_clientId = py ''c1'', r_answer = replicate 1024 97,
          r_question = DEFAULT_FORM_QUESTION, r_submitted = 5\<rparr>],
      form_last_by_client = [(py ''c1'', 5)], form_next_seq = 2, form_updated = Some 5\<rparr>"

definition form_state_surrogate :: FormState where
  "form_state_surrogate =
     \<lparr>form_id = py ''feedback'', form_question = DEFAULT_FORM_QUESTION, form_cooldown = 0,
      form_allow_repeat = True, form_locked = False,
      form_responses =
        [\<lparr>r_seq = 1, r_clientId = py ''c1'', r_answer = [55357],
          r_question = DEFAULT_FORM_QUESTION, r_submitted = 5\<rparr>],
      form_last_by_client = [(py ''c1'', 5)], form_next_seq = 2, form_updated = Some 5\<rparr>"

text \<open>
  A host whose replacement of character references turns the text \<^verbatim>\<open>R&amp;D\<close> into
  \<^verbatim>\<open>R&D\<close>, as \<^verbatim>\<open>html.unescape\<close> does, and is the identity elsewhere.
\<close>

definition host_amp :: host where
  "host_amp = host0\<lparr>charref_sub := (\<lambda>s. if s = py ''R&amp;D'' then py ''R&D'' else s)\<rparr>"

text \<open>
  Auxiliary notions for the properties of the aggregation: a well-formed range, the number
  of clients voting a color at a position, and the absence of a tie for the highest count.
\<close>

definition range_ok :: "bucket list \<Rightarrow> highlight_range \<Rightarrow> bool" where
  "range_ok vl r \<longleftrightarrow>
     rstart r \<le> rend r \<and> rend r < length vl \<and> rcolor r \<noteq> [] \<and>
     (\<forall>p. rstart r \<le> p \<and> p \<le> rend r \<longrightarrow> top_color_at (vl ! p) = rcolor r)"

definition votes_for :: "bucket \<Rightarrow> pystr \<Rightarrow> nat" where
  "votes_for b c = count_list (filter (\<lambda>v. v \<noteq> []) (dict_values b)) c"

definition no_tie :: "bucket \<Rightarrow> bool" where
  "no_tie b \<longleftrightarrow>
     (\<forall>c \<in> set (dict_values b). \<forall>c' \<in> set (dict_values b).
        c \<noteq> [] \<and> c' \<noteq> [] \<and> c \<noteq> c' \<and> votes_for b c = votes_for b c' \<longrightarrow>
        (\<exists>d \<in> set (dict_values b). votes_for b c < votes_for b d))"

definition cnt :: "(pystr, nat) dict \<Rightarrow> pystr \<Rightarrow> nat" where
  "cnt acc c = (case map_of acc c of None \<Rightarrow> 0 | Some n \<Rightarrow> n)"


section \<open>Properties of the majority aggregation\<close>


lemma extend_run_lt: "j < length vl \<Longrightarrow> extend_run vl color j < length vl"
proof (induction vl color j rule: extend_run.induct)
  case (1 vl color j)
  show ?case
  proof (cases "j + 1 < length vl \<and> top_color_at (vl ! (j + 1)) = color")
    case True
    then have "extend_run vl color j = extend_run vl color (j + 1)"
      by (subst extend_run.simps) simp
    with True "1.IH" show ?thesis by simp
  next
    case False
    then have "extend_run vl color j = j"
      by (subst extend_run.simps) auto
    with "1.prems" show ?thesis by simp
  qed
qed

lemma extend_run_color:
  "j < p \<Longrightarrow> p \<le> extend_run vl color j \<Longrightarrow> top_color_at (vl ! p) = color"
proof (induction vl color j rule: extend_run.induct)
  case (1 vl color j)
  show ?case
  proof (cases "j + 1 < length vl \<and> top_color_at (vl ! (j + 1)) = color")
    case True
    then have eq: "extend_run vl color j = extend_run vl color (j + 1)"
      by (subst extend_run.simps) simp
    show ?thesis
    proof (cases "p = j + 1")
      case True
      with \<open>j + 1 < length vl \<and> top_color_at (vl ! (j + 1)) = color\<close> show ?thesis by simp
    next
      case False
      with "1.prems" have "j + 1 < p" by simp
      with "1.IH" True "1.prems" eq show ?thesis by simp
    qed
  next
    case False
    then have "extend_run vl color j = j"
      by (subst extend_run.simps) auto
    with "1.prems" show ?thesis by simp
  qed
qed

lemma ranges_loop_inv:
  assumes "\<forall>r \<in> set acc. range_ok vl r \<and> rend r < i"
    and "sorted_wrt (\<lambda>a b. rend a < rstart b) acc"
  shows "(\<forall>r \<in> set (ranges_loop vl i acc). range_ok vl r) \<and>
         sorted_wrt (\<lambda>a b. rend a < rstart b) (ranges_loop vl i acc)"
  using assms
proof (induction vl i acc rule: ranges_loop.induct)
  case (1 vl i acc)
  show ?case
  proof (cases "i < length vl")
    case False
    then have "ranges_loop vl i acc = acc"
      by (subst ranges_loop.simps) simp
    with "1.prems" show ?thesis by simp
  next
    case inb: True
    define c where "c = top_color_at (vl ! i)"
    show ?thesis
    proof (cases "c = []")
      case True
      then have eq: "ranges_loop vl i acc = ranges_loop vl (i + 1) acc"
        using inb by (subst ranges_loop.simps) (simp add: c_def)
      have "\<forall>r \<in> set acc. range_ok vl r \<and> rend r < i + 1"
        using "1.prems"(1) by auto
      with "1.IH"(1) [OF inb c_def True] "1.prems"(2) eq show ?thesis by simp
    next
      case False
      define j where "j = extend_run vl c i"
      define r where "r = \<lparr>rstart = i, rend = j, rcolor = c\<rparr>"
      have eq: "ranges_loop vl i acc = ranges_loop vl (j + 1) (acc @ [r])"
        using inb False by (subst ranges_loop.simps) (simp add: c_def j_def r_def Let_def)
      have ij: "i \<le> j" unfolding j_def by (rule extend_run_ge)
      have jl: "j < length vl" unfolding j_def using inb by (rule extend_run_lt)
      have col: "top_color_at (vl ! p) = c" if "i \<le> p" "p \<le> j" for p
      proof (cases "p = i")
        case True then show ?thesis by (simp add: c_def)
      next
        case False
        with that have "i < p" by simp
        from this that(2) show ?thesis unfolding j_def by (rule extend_run_color)
      qed
      have rok: "range_ok vl r"
        using ij jl col False by (simp add: range_ok_def r_def)
      have p1: "\<forall>x \<in> set (acc @ [r]). range_ok vl x \<and> rend x < j + 1"
        using "1.prems"(1) rok ij by (auto simp: r_def)
      have p2: "sorted_wrt (\<lambda>a b. rend a < rstart b) (acc @ [r])"
        using "1.prems" by (auto simp: sorted_wrt_append r_def)
      from "1.IH"(2) [OF inb c_def False j_def p1 [unfolded r_def] p2 [unfolded r_def]] eq
      show ?thesis by (simp add: r_def)
    qed
  qed
qed


text \<open>
  Claim C10. For every votes list, the ranges returned by \<open>ranges_from_votes\<close> are
  well-formed and ordered: each range satisfies \<open>0 \<le> start \<le> end < len(votes)\<close>, every
  position inside a range has the range's color as its top color, and every range ends
  before each later range starts (so the ranges are pairwise disjoint and listed in strictly
  increasing position order).
\<close>

theorem ranges_from_votes_well_formed:
  "(\<forall>r \<in> set (ranges_from_votes vl).
      0 \<le> rstart r \<and> rstart r \<le> rend r \<and> rend r < length vl \<and>
      (\<forall>p. rstart r \<le> p \<and> p \<le> rend r \<longrightarrow> top_color_at (vl ! p) = rcolor r)) \<and>
   (\<forall>a b. a < b \<and> b < length (ranges_from_votes vl) \<longrightarrow>
      rend (ranges_from_votes vl ! a) < rstart (ranges_from_votes vl ! b))"
proof -
  have inv: "(\<forall>r \<in> set (ranges_from_votes vl). range_ok vl r) \<and>
         sorted_wrt (\<lambda>a b. rend a < rstart b) (ranges_from_votes vl)"
    unfolding ranges_from_votes_def by (rule ranges_loop_inv) simp_all
  then show ?thesis
    by (auto simp: range_ok_def sorted_wrt_iff_nth_less)
qed



theorem ranges_from_votes_well_formed_witness:
  "ranges_from_votes
     [[(py ''A'', py ''red'')], [(py ''A'', py ''red''), (py ''B'', py ''green'')], [],
      [(py ''B'', py ''green'')]]
   = [\<lparr>rstart = 0, rend = 1, rcolor = py ''red''\<rparr>,
      \<lparr>rstart = 3, rend = 3, rcolor = py ''green''\<rparr>] \<and>
   (0::nat) \<le> 0 \<and> (0::nat) \<le> 1 \<and> (1::nat) < 4 \<and> (1::nat) < 3 \<and>
   top_color_at [(py ''A'', py ''red''), (py ''B'', py ''green'')] = py ''red''"
proof -
  let ?V = "[[(py ''A'', py ''red'')], [(py ''A'', py ''red''), (py ''B'', py ''green'')], [],
      [(py ''B'', py ''green'')]]"
  have e: "ranges_from_votes ?V
     = [\<lparr>rstart = 0, rend = 1, rcolor = py ''red''\<rparr>,
        \<lparr>rstart = 3, rend = 3, rcolor = py ''green''\<rparr>]"
    by code_simp
  from ranges_from_votes_well_formed [of ?V]
  have "\<forall>p. 0 \<le> p \<and> p \<le> 1 \<longrightarrow> top_color_at (?V ! p) = py ''red''"
    unfolding e by simp
  then have "0 \<le> (1::nat) \<and> (1::nat) \<le> 1 \<longrightarrow> top_color_at (?V ! 1) = py ''red''"
    by (rule spec)
  then have "top_color_at (?V ! 1) = py ''red''" by simp
  with e show ?thesis by simp
qed

lemma map_of_dict_set: "map_of (dict_set d k v) = (map_of d)(k \<mapsto> v)"
  by (induction d) (auto simp: fun_eq_iff)

lemma keys_dict_set: "fst ` set (dict_set d k v) = insert k (fst ` set d)"
  by (simp add: dom_map_of_conv_image_fst [symmetric] map_of_dict_set)

lemma distinct_dict_set: "distinct (map fst d) \<Longrightarrow> distinct (map fst (dict_set d k v))"
  by (induction d) (auto simp: keys_dict_set)

lemma set_dict_set: "set (dict_set d k v) \<subseteq> insert (k, v) (set d)"
  by (induction d) (auto split: if_splits)

lemma distinct_count_vote: "distinct (map fst acc) \<Longrightarrow> distinct (map fst (count_vote acc c))"
  by (simp add: count_vote_def distinct_dict_set)

lemma distinct_foldl_count_vote:
  "distinct (map fst acc) \<Longrightarrow> distinct (map fst (foldl count_vote acc vs))"
  by (induction vs arbitrary: acc) (simp_all add: distinct_count_vote)

lemma cnt_count_vote:
  "cnt (count_vote acc v) c = cnt acc c + (if v \<noteq> [] \<and> v = c then 1 else 0)"
  by (simp add: cnt_def count_vote_def map_of_dict_set dict_get_def)

lemma cnt_foldl:
  "cnt (foldl count_vote acc vs) c = cnt acc c + count_list (filter (\<lambda>v. v \<noteq> []) vs) c"
  by (induction vs arbitrary: acc) (auto simp: cnt_count_vote)

lemma pos_count_vote:
  assumes "\<forall>kv \<in> set acc. 0 < snd kv"
  shows "\<forall>kv \<in> set (count_vote acc v). 0 < snd kv"
proof (cases "v = []")
  case True
  with assms show ?thesis by (simp add: count_vote_def)
next
  case False
  then obtain n where "count_vote acc v = dict_set acc v (n + 1)"
    by (simp add: count_vote_def)
  with assms set_dict_set [of acc v "n + 1"] show ?thesis by auto
qed

lemma pos_foldl:
  "\<forall>kv \<in> set acc. 0 < snd kv \<Longrightarrow> \<forall>kv \<in> set (foldl count_vote acc vs). 0 < snd kv"
proof (induction vs arbitrary: acc)
  case Nil then show ?case by simp
next
  case (Cons v vs)
  from Cons.prems have "\<forall>kv \<in> set (count_vote acc v). 0 < snd kv" by (rule pos_count_vote)
  then show ?case using Cons.IH by simp
qed

lemma color_counts_set:
  "(c, n) \<in> set (color_counts b) \<longleftrightarrow> 0 < n \<and> n = votes_for b c"
proof -
  have d: "distinct (map fst (color_counts b))"
    unfolding color_counts_def by (rule distinct_foldl_count_vote) simp
  have p: "\<forall>kv \<in> set (color_counts b). 0 < snd kv"
    unfolding color_counts_def by (rule pos_foldl) simp
  have c: "cnt (color_counts b) c = votes_for b c"
    unfolding color_counts_def votes_for_def by (simp add: cnt_foldl) (simp add: cnt_def)
  show ?thesis
  proof
    assume m: "(c, n) \<in> set (color_counts b)"
    with d have "map_of (color_counts b) c = Some n" by simp
    then have "cnt (color_counts b) c = n" by (simp add: cnt_def)
    with c p m show "0 < n \<and> n = votes_for b c" by auto
  next
    assume a: "0 < n \<and> n = votes_for b c"
    with c have "cnt (color_counts b) c = n" by simp
    with a obtain m where "map_of (color_counts b) c = Some m" "m = n"
      by (auto simp: cnt_def split: option.splits)
    then show "(c, n) \<in> set (color_counts b)" by (auto dest: map_of_SomeD)
  qed
qed

lemma max_by_count_mem: "max_by_count x xs \<in> set (x # xs)"
  by (induction xs arbitrary: x) auto

lemma max_by_count_ge_best: "snd x \<le> snd (max_by_count x xs)"
proof (induction xs arbitrary: x)
  case Nil then show ?case by simp
next
  case (Cons z zs)
  have "snd x \<le> snd (if snd x < snd z then z else x)" by simp
  also have "\<dots> \<le> snd (max_by_count (if snd x < snd z then z else x) zs)" by (rule Cons.IH)
  finally show ?case by simp
qed

lemma max_by_count_ge: "y \<in> set (x # xs) \<Longrightarrow> snd y \<le> snd (max_by_count x xs)"
proof (induction xs arbitrary: x)
  case Nil then show ?case by simp
next
  case (Cons z zs)
  let ?b = "if snd x < snd z then z else x"
  have b: "snd ?b \<le> snd (max_by_count ?b zs)" by (rule max_by_count_ge_best)
  from Cons.prems consider "y = x" | "y = z" | "y \<in> set zs" by auto
  then show ?case
  proof cases
    case 1 with b show ?thesis by (simp split: if_splits)
  next
    case 2 with b show ?thesis by (simp split: if_splits)
  next
    case 3 then show ?thesis using Cons.IH [of ?b] by simp
  qed
qed

lemma top_color_at_none:
  assumes "\<forall>c. votes_for b c = 0"
  shows "top_color_at b = []"
proof -
  have none: "(c, n) \<notin> set (color_counts b)" for c n
    using assms by (auto simp: color_counts_set)
  have "color_counts b = []"
  proof (cases "color_counts b")
    case Nil then show ?thesis .
  next
    case (Cons x xs)
    then have "(fst x, snd x) \<in> set (color_counts b)" by simp
    with none show ?thesis by blast
  qed
  then show ?thesis by (simp add: top_color_at_def)
qed

lemma top_color_at_max:
  assumes "0 < votes_for b c"
  shows "0 < votes_for b (top_color_at b) \<and> (\<forall>d. votes_for b d \<le> votes_for b (top_color_at b))"
proof -
  from assms have "(c, votes_for b c) \<in> set (color_counts b)"
    by (simp add: color_counts_set)
  then obtain x xs where cc: "color_counts b = x # xs"
    by (cases "color_counts b") auto
  let ?m = "max_by_count x xs"
  have top: "top_color_at b = fst ?m" by (simp add: top_color_at_def cc)
  have "?m \<in> set (color_counts b)" unfolding cc by (rule max_by_count_mem)
  then have m: "0 < snd ?m" "snd ?m = votes_for b (fst ?m)"
    using color_counts_set [of "fst ?m" "snd ?m" b] by simp_all
  have "votes_for b d \<le> snd ?m" for d
  proof (cases "votes_for b d = 0")
    case True then show ?thesis by simp
  next
    case False
    then have "(d, votes_for b d) \<in> set (x # xs)"
      unfolding cc [symmetric] by (simp add: color_counts_set)
    from max_by_count_ge [OF this] show ?thesis by simp
  qed
  with m top show ?thesis by simp
qed


lemma votes_for_mset: "votes_for b c = count (filter_mset (\<lambda>v. v \<noteq> []) (mset (dict_values b))) c"
  by (simp add: votes_for_def count_mset [symmetric] del: count_mset)

lemma votes_for_pos: "0 < votes_for b c \<Longrightarrow> c \<in> set (dict_values b) \<and> c \<noteq> []"
proof -
  assume "0 < votes_for b c"
  then have "count_list (filter (\<lambda>v. v \<noteq> []) (dict_values b)) c \<noteq> 0"
    by (simp add: votes_for_def)
  then have "c \<in> set (filter (\<lambda>v. v \<noteq> []) (dict_values b))"
    by (simp only: count_list_0_iff not_not)
  then show ?thesis by simp
qed

lemma top_color_at_perm:
  assumes nt: "no_tie b" and ms: "mset (dict_values b') = mset (dict_values b)"
  shows "top_color_at b' = top_color_at b"
proof -
  have vf: "votes_for b' c = votes_for b c" for c
    by (simp add: votes_for_mset ms)
  show ?thesis
  proof (cases "\<forall>c. votes_for b c = 0")
    case True
    then have "top_color_at b = []" by (rule top_color_at_none)
    moreover from True have "\<forall>c. votes_for b' c = 0" by (simp add: vf)
    then have "top_color_at b' = []" by (rule top_color_at_none)
    ultimately show ?thesis by simp
  next
    case False
    then obtain c where c: "0 < votes_for b c" by auto
    let ?t = "top_color_at b" and ?t' = "top_color_at b'"
    from c have t: "0 < votes_for b ?t" "\<And>d. votes_for b d \<le> votes_for b ?t"
      using top_color_at_max [of b c] by simp_all
    from c have "0 < votes_for b' c" by (simp add: vf)
    then have t': "0 < votes_for b ?t'" "\<And>d. votes_for b d \<le> votes_for b ?t'"
      using top_color_at_max [of b' c] by (simp_all add: vf)
    have eq: "votes_for b ?t = votes_for b ?t'"
      using t(2) [of ?t'] t'(2) [of ?t] by simp
    show ?thesis
    proof (rule ccontr)
      assume ne: "?t' \<noteq> ?t"
      from t(1) t'(1) have "?t \<in> set (dict_values b)" "?t \<noteq> []"
        "?t' \<in> set (dict_values b)" "?t' \<noteq> []"
        by (simp_all add: votes_for_pos)
      with nt ne eq obtain d where "votes_for b ?t < votes_for b d"
        unfolding no_tie_def by metis
      with t(2) [of d] show False by simp
    qed
  qed
qed

lemma extend_run_cong:
  assumes "length vl' = length vl"
    and "\<forall>i < length vl. top_color_at (vl' ! i) = top_color_at (vl ! i)"
  shows "extend_run vl' color j = extend_run vl color j"
  using assms
proof (induction vl color j rule: extend_run.induct)
  case (1 vl color j)
  show ?case
  proof (cases "j + 1 < length vl \<and> top_color_at (vl ! (j + 1)) = color")
    case True
    with "1.prems" have True': "j + 1 < length vl' \<and> top_color_at (vl' ! (j + 1)) = color"
      by simp
    have "extend_run vl' color j = extend_run vl' color (j + 1)"
      using True' by (subst extend_run.simps) simp
    also have "\<dots> = extend_run vl color (j + 1)"
      using "1.IH" True "1.prems" by simp
    also have "\<dots> = extend_run vl color j"
      using True by (subst (2) extend_run.simps) simp
    finally show ?thesis .
  next
    case False
    with "1.prems" have False': "\<not> (j + 1 < length vl' \<and> top_color_at (vl' ! (j + 1)) = color)"
      by auto
    have "extend_run vl' color j = j"
      using False' by (subst extend_run.simps) auto
    moreover have "extend_run vl color j = j"
      using False by (subst extend_run.simps) auto
    ultimately show ?thesis by simp
  qed
qed

lemma ranges_loop_cong:
  assumes "length vl' = length vl"
    and "\<forall>i < length vl. top_color_at (vl' ! i) = top_color_at (vl ! i)"
  shows "ranges_loop vl' i acc = ranges_loop vl i acc"
  using assms
proof (induction vl i acc rule: ranges_loop.induct)
  case (1 vl i acc)
  show ?case
  proof (cases "i < length vl")
    case False
    with "1.prems" show ?thesis
      by (subst ranges_loop.simps, subst (2) ranges_loop.simps) simp
  next
    case inb: True
    define c where "c = top_color_at (vl ! i)"
    have c': "top_color_at (vl' ! i) = c" using "1.prems" inb by (simp add: c_def)
    show ?thesis
    proof (cases "c = []")
      case True
      have "ranges_loop vl' i acc = ranges_loop vl' (i + 1) acc"
        using inb True c' "1.prems"(1) by (subst ranges_loop.simps) simp
      also have "\<dots> = ranges_loop vl (i + 1) acc"
        using "1.IH"(1) [OF inb c_def True] "1.prems" by simp
      also have "\<dots> = ranges_loop vl i acc"
        using inb True by (subst (2) ranges_loop.simps) (simp add: c_def)
      finally show ?thesis .
    next
      case False
      define j where "j = extend_run vl c i"
      have j': "extend_run vl' c i = j"
        unfolding j_def using "1.prems" by (rule extend_run_cong)
      have "ranges_loop vl' i acc =
          ranges_loop vl' (j + 1) (acc @ [\<lparr>rstart = i, rend = j, rcolor = c\<rparr>])"
        using inb False c' j' "1.prems"(1) by (subst ranges_loop.simps) (simp add: Let_def)
      also have "\<dots> = ranges_loop vl (j + 1) (acc @ [\<lparr>rstart = i, rend = j, rcolor = c\<rparr>])"
        using "1.IH"(2) [OF inb c_def False j_def] "1.prems" by simp
      also have "\<dots> = ranges_loop vl i acc"
        using inb False by (subst (2) ranges_loop.simps) (simp add: c_def j_def Let_def)
      finally show ?thesis .
    qed
  qed
qed


text \<open>
  Claim C3, as amended. For every votes list in which no position has two colors tied for
  the highest vote count, any other votes list with the same multiset of voted colors at
  each position (the client ids permuted or renamed, the vote maps filled in another
  insertion order) yields identical ranges.
\<close>

theorem ranges_order_independent_without_ties:
  assumes "length vl' = length vl"
    and "\<forall>i < length vl. mset (dict_values (vl' ! i)) = mset (dict_values (vl ! i))"
    and "\<forall>i < length vl. no_tie (vl ! i)"
  shows "ranges_from_votes vl' = ranges_from_votes vl"
proof -
  have "\<forall>i < length vl. top_color_at (vl' ! i) = top_color_at (vl ! i)"
    using assms(2,3) by (simp add: top_color_at_perm)
  with assms(1) show ?thesis
    unfolding ranges_from_votes_def by (rule ranges_loop_cong)
qed

theorem ranges_order_independent_without_ties_witness:
  "no_tie [(py ''A'', py ''red''), (py ''B'', py ''red''), (py ''C'', py ''green'')] \<and>
   no_tie [] \<and>
   ranges_from_votes [[(py ''C'', py ''green''), (py ''B'', py ''red''), (py ''A'', py ''red'')], []]
   = ranges_from_votes [[(py ''A'', py ''red''), (py ''B'', py ''red''), (py ''C'', py ''green'')], []]"
  using ranges_order_independent_without_ties
    [of "[[(py ''C'', py ''green''), (py ''B'', py ''red''), (py ''A'', py ''red'')], []]"
        "[[(py ''A'', py ''red''), (py ''B'', py ''red''), (py ''C'', py ''green'')], []]"]
  by (simp add: All_less_Suc no_tie_def votes_for_def dict_values_def py_def nth_Cons')

theorem ranges_order_dependent_counterexample:
  "ranges_from_votes [[(py ''B'', py ''green''), (py ''A'', py ''red'')]]
   \<noteq> ranges_from_votes [[(py ''A'', py ''red''), (py ''B'', py ''green'')]]"
  by code_simp


section \<open>Properties of the tokenizer\<close>

lemma RE_SPLIT_split_end:
  assumes d: "dropWhile (\<lambda>c. \<not> RE_SPLIT_sep c) s = []"
  shows "RE_SPLIT_split s = [s]"
proof -
  have "takeWhile (\<lambda>c. \<not> RE_SPLIT_sep c) s @ dropWhile (\<lambda>c. \<not> RE_SPLIT_sep c) s = s"
    by (rule takeWhile_dropWhile_id)
  then have t: "takeWhile (\<lambda>c. \<not> RE_SPLIT_sep c) s = s" unfolding d by simp
  show ?thesis
    by (subst RE_SPLIT_split.simps) (simp add: Let_def d t del: dropWhile_eq_Nil_conv)
qed

lemma RE_SPLIT_split_space:
  "dropWhile (\<lambda>c. \<not> RE_SPLIT_sep c) s = c # cs \<Longrightarrow> isspace c \<Longrightarrow>
   RE_SPLIT_split s = takeWhile (\<lambda>c. \<not> RE_SPLIT_sep c) s # takeWhile isspace (c # cs)
                      # RE_SPLIT_split (dropWhile isspace (c # cs))"
  by (subst RE_SPLIT_split.simps) (simp add: Let_def)

lemma RE_SPLIT_split_punct:
  "dropWhile (\<lambda>c. \<not> RE_SPLIT_sep c) s = c # cs \<Longrightarrow> \<not> isspace c \<Longrightarrow>
   RE_SPLIT_split s = takeWhile (\<lambda>c. \<not> RE_SPLIT_sep c) s # [c] # RE_SPLIT_split cs"
  by (subst RE_SPLIT_split.simps) (simp add: Let_def)

lemma split_words_end:
  assumes d: "dropWhile isspace s = []"
  shows "split_words s = []"
  by (subst split_words.simps) (simp add: d del: dropWhile_eq_Nil_conv)

lemma split_words_word:
  "dropWhile isspace s = c # cs \<Longrightarrow>
   split_words s = takeWhile (\<lambda>x. \<not> isspace x) (c # cs)
                   # split_words (dropWhile (\<lambda>x. \<not> isspace x) (c # cs))"
  by (subst split_words.simps) simp

lemma split_words_skip: "split_words (dropWhile isspace s) = split_words s"
  by (subst split_words.simps, subst (2) split_words.simps) simp

lemma split_words_skip_append:
  "\<forall>c \<in> set ws. isspace c \<Longrightarrow> split_words (ws @ s) = split_words s"
proof -
  assume "\<forall>c \<in> set ws. isspace c"
  then have "dropWhile isspace (ws @ s) = dropWhile isspace s"
    by (simp add: dropWhile_append2)
  then show ?thesis using split_words_skip [of "ws @ s"] split_words_skip [of s] by simp
qed

lemma keep_nonspace_piece:
  "\<forall>c \<in> set w. \<not> isspace c \<Longrightarrow>
   filter (\<lambda>seg. seg \<noteq> [] \<and> \<not> str_isspace seg) [w] = (if w = [] then [] else [w])"
  by (cases w) (auto simp: str_isspace_def)

lemma drop_space_run:
  "ws \<noteq> [] \<Longrightarrow> \<forall>c \<in> set ws. isspace c \<Longrightarrow>
   filter (\<lambda>seg. seg \<noteq> [] \<and> \<not> str_isspace seg) [ws] = []"
  by (simp add: str_isspace_def list_all_iff)

lemma kept_concat:
  "concat (filter (\<lambda>seg. seg \<noteq> [] \<and> \<not> str_isspace seg) (RE_SPLIT_split s))
   = filter (\<lambda>c. \<not> isspace c) s"
proof (induction s rule: RE_SPLIT_split.induct)
  case (1 s)
  let ?K = "\<lambda>seg. seg \<noteq> [] \<and> \<not> str_isspace seg"
  define piece where "piece = takeWhile (\<lambda>c. \<not> RE_SPLIT_sep c) s"
  define rest where "rest = dropWhile (\<lambda>c. \<not> RE_SPLIT_sep c) s"
  have s: "s = piece @ rest" by (simp add: piece_def rest_def)
  have pns: "\<forall>c \<in> set piece. \<not> isspace c"
    unfolding piece_def by (auto dest: set_takeWhileD simp: RE_SPLIT_sep_def)
  then have fp: "filter (\<lambda>c. \<not> isspace c) piece = piece" by simp
  have kp: "concat (filter ?K [piece]) = piece"
    using keep_nonspace_piece [OF pns] by simp
  show ?case
  proof (cases rest)
    case Nil
    then have "RE_SPLIT_split s = [s]" unfolding rest_def by (rule RE_SPLIT_split_end)
    moreover from Nil s have "s = piece" by simp
    ultimately show ?thesis using kp fp by simp
  next
    case (Cons c cs)
    show ?thesis
    proof (cases "isspace c")
      case True
      define ws where "ws = takeWhile isspace rest"
      define rest' where "rest' = dropWhile isspace rest"
      have r: "rest = ws @ rest'" by (simp add: ws_def rest'_def)
      have wsne: "ws \<noteq> []" using Cons True by (simp add: ws_def)
      have wss: "\<forall>c \<in> set ws. isspace c" unfolding ws_def by (auto dest: set_takeWhileD)
      have eq: "RE_SPLIT_split s = piece # ws # RE_SPLIT_split rest'"
        using RE_SPLIT_split_space [of s c cs] Cons True
        by (simp add: rest_def [symmetric] piece_def ws_def rest'_def)
      have ih: "concat (filter ?K (RE_SPLIT_split rest')) = filter (\<lambda>c. \<not> isspace c) rest'"
        unfolding rest'_def by (rule "1.IH"(1) [OF piece_def rest_def Cons True])
      have "concat (filter ?K (RE_SPLIT_split s))
          = concat (filter ?K [piece]) @ concat (filter ?K [ws]) @ concat (filter ?K (RE_SPLIT_split rest'))"
        unfolding eq by simp
      also have "\<dots> = piece @ filter (\<lambda>c. \<not> isspace c) rest'"
        using kp drop_space_run [OF wsne wss] ih by simp
      also have "\<dots> = filter (\<lambda>c. \<not> isspace c) s"
        using fp wss by (simp add: s r)
      finally show ?thesis .
    next
      case False
      have eq: "RE_SPLIT_split s = piece # [c] # RE_SPLIT_split cs"
        using RE_SPLIT_split_punct [of s c cs] Cons False
        by (simp add: rest_def [symmetric] piece_def)
      have ih: "concat (filter ?K (RE_SPLIT_split cs)) = filter (\<lambda>c. \<not> isspace c) cs"
        by (rule "1.IH"(2) [OF piece_def rest_def Cons False])
      have "concat (filter ?K (RE_SPLIT_split s))
          = concat (filter ?K [piece]) @ concat (filter ?K [[c]]) @ concat (filter ?K (RE_SPLIT_split cs))"
        unfolding eq by simp
      also have "\<dots> = piece @ [c] @ filter (\<lambda>c. \<not> isspace c) cs"
        using kp ih False by (simp add: str_isspace_def)
      also have "\<dots> = filter (\<lambda>c. \<not> isspace c) s"
        using fp False by (simp add: s Cons)
      finally show ?thesis .
    qed
  qed
qed

lemma kept_words:
  "\<forall>c \<in> set s. \<not> RE_SPLIT_punct c \<Longrightarrow>
   filter (\<lambda>seg. seg \<noteq> [] \<and> \<not> str_isspace seg) (RE_SPLIT_split s) = split_words s"
proof (induction s rule: RE_SPLIT_split.induct)
  case (1 s)
  let ?K = "\<lambda>seg. seg \<noteq> [] \<and> \<not> str_isspace seg"
  have sep: "(\<lambda>c. \<not> RE_SPLIT_sep c) c = (\<not> isspace c)" if "c \<in> set s" for c
    using that "1.prems" by (simp add: RE_SPLIT_sep_def)
  then have tw: "takeWhile (\<lambda>c. \<not> RE_SPLIT_sep c) s = takeWhile (\<lambda>c. \<not> isspace c) s"
    by (intro takeWhile_cong) simp_all
  from sep have dw: "dropWhile (\<lambda>c. \<not> RE_SPLIT_sep c) s = dropWhile (\<lambda>c. \<not> isspace c) s"
    by (intro dropWhile_cong) simp_all
  define piece where "piece = takeWhile (\<lambda>c. \<not> RE_SPLIT_sep c) s"
  define rest where "rest = dropWhile (\<lambda>c. \<not> RE_SPLIT_sep c) s"
  have s: "s = piece @ rest" by (simp add: piece_def rest_def)
  have pns: "\<forall>c \<in> set piece. \<not> isspace c"
    unfolding piece_def by (auto dest: set_takeWhileD simp: RE_SPLIT_sep_def)
  have words_s: "split_words s = (if piece = [] then split_words rest else piece # split_words rest)"
  proof (cases piece)
    case Nil
    with s show ?thesis by simp
  next
    case (Cons p ps)
    with pns have "\<not> isspace p" by simp
    with Cons s have d: "dropWhile isspace s = p # (ps @ rest)" by simp
    have e: "p # (ps @ rest) = s" using s Cons by simp
    have t1: "takeWhile (\<lambda>x. \<not> isspace x) s = piece" using tw by (simp add: piece_def)
    have t2: "dropWhile (\<lambda>x. \<not> isspace x) s = rest" using dw by (simp add: rest_def)
    from split_words_word [OF d]
    have "split_words s = takeWhile (\<lambda>x. \<not> isspace x) s
                          # split_words (dropWhile (\<lambda>x. \<not> isspace x) s)"
      by (simp only: e)
    with t1 t2 Cons show ?thesis by simp
  qed
  show ?case
  proof (cases rest)
    case Nil
    then have "RE_SPLIT_split s = [s]" unfolding rest_def by (rule RE_SPLIT_split_end)
    moreover from Nil s have sp: "s = piece" by simp
    moreover have "split_words [] = []" by (rule split_words_end) simp
    ultimately show ?thesis
      using keep_nonspace_piece [OF pns] words_s Nil by simp
  next
    case (Cons c cs)
    have "c \<in> set s" using s Cons by simp
    moreover have "RE_SPLIT_sep c"
      using hd_dropWhile [of "\<lambda>c. \<not> RE_SPLIT_sep c" s] Cons by (simp add: rest_def [symmetric])
    ultimately have True: "isspace c" using "1.prems" by (auto simp: RE_SPLIT_sep_def)
    define ws where "ws = takeWhile isspace rest"
    define rest' where "rest' = dropWhile isspace rest"
    have r: "rest = ws @ rest'" by (simp add: ws_def rest'_def)
    have wsne: "ws \<noteq> []" using Cons True by (simp add: ws_def)
    have wss: "\<forall>c \<in> set ws. isspace c" unfolding ws_def by (auto dest: set_takeWhileD)
    have eq: "RE_SPLIT_split s = piece # ws # RE_SPLIT_split rest'"
      using RE_SPLIT_split_space [of s c cs] Cons True
      by (simp add: rest_def [symmetric] piece_def ws_def rest'_def)
    have "\<forall>c \<in> set rest'. \<not> RE_SPLIT_punct c"
      using "1.prems" s r by simp
    then have ih: "filter ?K (RE_SPLIT_split rest') = split_words rest'"
      unfolding rest'_def using "1.IH"(1) [OF piece_def rest_def Cons True] by simp
    have "filter ?K (RE_SPLIT_split s)
        = filter ?K [piece] @ filter ?K [ws] @ filter ?K (RE_SPLIT_split rest')"
      unfolding eq by simp
    also have "\<dots> = (if piece = [] then [] else [piece]) @ split_words rest'"
      using keep_nonspace_piece [OF pns] drop_space_run [OF wsne wss] ih by simp
    also have "split_words rest' = split_words rest"
      unfolding r using wss by (simp add: split_words_skip_append)
    finally show ?thesis using words_s by simp
  qed
qed

lemma split_words_members:
  "w \<in> set (split_words s) \<Longrightarrow> w \<noteq> [] \<and> (\<forall>c \<in> set w. \<not> isspace c)"
proof (induction s rule: split_words.induct)
  case (1 s)
  show ?case
  proof (cases "dropWhile isspace s")
    case Nil
    then have "split_words s = []" by (rule split_words_end)
    with "1.prems" show ?thesis by simp
  next
    case (Cons c cs)
    then have nc: "\<not> isspace c" using hd_dropWhile [of isspace s] by auto
    from "1.prems" split_words_word [OF Cons]
    consider "w = takeWhile (\<lambda>x. \<not> isspace x) (c # cs)"
      | "w \<in> set (split_words (dropWhile (\<lambda>x. \<not> isspace x) (c # cs)))"
      by auto
    then show ?thesis
    proof cases
      case 1
      then show ?thesis using nc by (auto dest: set_takeWhileD)
    next
      case 2
      then show ?thesis by (rule "1.IH" [OF Cons])
    qed
  qed
qed

lemma split_words_word_first:
  assumes "w \<noteq> []" and "\<forall>c \<in> set w. \<not> isspace c"
  shows "split_words (w @ 32 # s) = w # split_words s"
proof -
  obtain c cs where w: "w = c # cs" using assms(1) by (cases w) auto
  with assms(2) have nc: "\<not> isspace c" by simp
  have sp: "isspace 32" by (simp add: isspace_def)
  have d: "dropWhile isspace (w @ 32 # s) = c # (cs @ 32 # s)" using w nc by simp
  have t: "takeWhile (\<lambda>x. \<not> isspace x) (c # (cs @ 32 # s)) = w"
    using assms(2) sp w by (simp add: takeWhile_append2 [of cs] del: takeWhile_append2)
  have dd: "dropWhile (\<lambda>x. \<not> isspace x) (c # (cs @ 32 # s)) = 32 # s"
    using assms(2) sp w by simp
  have "split_words (32 # s) = split_words s"
    using split_words_skip_append [of "[32]" s] sp by simp
  with split_words_word [OF d] t dd show ?thesis by simp
qed

lemma split_words_single:
  assumes "w \<noteq> []" and "\<forall>c \<in> set w. \<not> isspace c"
  shows "split_words w = [w]"
proof -
  obtain c cs where w: "w = c # cs" using assms(1) by (cases w) auto
  with assms(2) have d: "dropWhile isspace w = c # cs" by simp
  have "takeWhile (\<lambda>x. \<not> isspace x) (c # cs) = w" "dropWhile (\<lambda>x. \<not> isspace x) (c # cs) = []"
    using assms(2) w by simp_all
  moreover have "split_words [] = []" by (rule split_words_end) simp
  ultimately show ?thesis using split_words_word [OF d] by simp
qed

lemma split_words_join:
  "\<forall>w \<in> set ws. w \<noteq> [] \<and> (\<forall>c \<in> set w. \<not> isspace c) \<Longrightarrow>
   split_words (join_str [32] ws) = ws"
proof (induction ws rule: induct_list012)
  case 1
  show ?case using split_words_end [of "[]"] by simp
next
  case (2 x)
  then show ?case by (simp add: split_words_single)
next
  case (3 x y zs)
  then show ?case by (simp add: split_words_word_first)
qed

lemma tokenize_kept:
  "filter (\<lambda>t. \<not> str_isspace t) (tokenize h text)
   = filter (\<lambda>seg. seg \<noteq> [] \<and> \<not> str_isspace seg) (RE_SPLIT_split (html_to_plain h text))"
proof -
  have one: "filter (\<lambda>t. \<not> str_isspace t)
               (if str_isspace seg then replicate (count_list seg 10) [10] else [seg])
             = (if str_isspace seg then [] else [seg])" for seg :: pystr
    by (simp add: str_isspace_def isspace_def)
  have gen: "filter (\<lambda>t. \<not> str_isspace t)
        (concat (map (\<lambda>seg. if str_isspace seg then replicate (count_list seg 10) [10] else [seg]) raw))
      = filter (\<lambda>seg. \<not> str_isspace seg) raw" for raw :: "pystr list"
    by (induction raw) (simp_all add: one del: filter_replicate)
  show ?thesis
    by (simp add: tokenize_def Let_def gen conj_commute)
qed

lemma html_to_plain_plain:
  "60 \<notin> set text \<Longrightarrow> 38 \<notin> set text \<Longrightarrow> html_to_plain h text = text"
  by (simp add: html_to_plain_def html_unescape_def)

text \<open>
  Claim C2, as amended. For every text with no angle brackets and no ampersand (so that no
  character reference is decoded): the non-whitespace tokens of \<open>tokenize\<close>, concatenated,
  are the text with all its whitespace removed; and when the text has none of the separator
  punctuation characters either, re-joining the non-whitespace tokens with single spaces
  reproduces the whitespace-separated word sequence of the text.
\<close>

theorem tokenize_roundtrip:
  assumes "60 \<notin> set text" and "62 \<notin> set text" and "38 \<notin> set text"
  shows "concat (filter (\<lambda>t. \<not> str_isspace t) (tokenize h text)) = filter (\<lambda>c. \<not> isspace c) text \<and>
         ((\<forall>c \<in> set text. \<not> RE_SPLIT_punct c) \<longrightarrow>
            split_words (rejoin (tokenize h text)) = split_words text)"
proof -
  have p: "html_to_plain h text = text" using assms by (simp add: html_to_plain_plain)
  have "split_words (rejoin (tokenize h text)) = split_words text"
    if "\<forall>c \<in> set text. \<not> RE_SPLIT_punct c"
  proof -
    have "filter (\<lambda>t. \<not> str_isspace t) (tokenize h text) = split_words text"
      using kept_words [OF that] by (simp add: tokenize_kept p)
    then show ?thesis
      by (simp add: rejoin_def split_words_join split_words_members)
  qed
  then show ?thesis by (simp add: tokenize_kept p kept_concat)
qed

theorem tokenize_roundtrip_witness:
  "concat (filter (\<lambda>t. \<not> str_isspace t) (tokenize host0 (py ''The quick  fox'')))
     = filter (\<lambda>c. \<not> isspace c) (py ''The quick  fox'') \<and>
   split_words (rejoin (tokenize host0 (py ''The quick  fox''))) = split_words (py ''The quick  fox'')"
  using tokenize_roundtrip [of "py ''The quick  fox''" host0]
  by (simp add: py_def RE_SPLIT_punct_def)

theorem tokenize_roundtrip_counterexample:
  "60 \<notin> set (py ''a.b'') \<and> 62 \<notin> set (py ''a.b'') \<and>
   split_words (rejoin (tokenize host0 (py ''a.b''))) = [py ''a'', py ''.'', py ''b''] \<and>
   split_words (py ''a.b'') = [py ''a.b''] \<and>
   split_words (rejoin (tokenize host0 (py ''a.b''))) \<noteq> split_words (py ''a.b'') \<and>
   60 \<notin> set (py ''R&amp;D'') \<and> 62 \<notin> set (py ''R&amp;D'') \<and>
   tokenize host_amp (py ''R&amp;D'') = [py ''R&D''] \<and>
   split_words (py ''R&amp;D'') = [py ''R&amp;D''] \<and>
   split_words (rejoin (tokenize host_amp (py ''R&amp;D''))) \<noteq> split_words (py ''R&amp;D'') \<and>
   concat (filter (\<lambda>t. \<not> str_isspace t) (tokenize host_amp (py ''R&amp;D'')))
     \<noteq> filter (\<lambda>c. \<not> isspace c) (py ''R&amp;D'')"
  by code_simp

section \<open>Properties of the document store\<close>

lemma state_ok_ensure [simp]: "state_ok (ensure_votes_length s)"
  by (simp add: state_ok_def ensure_votes_length_def Let_def)

lemma ensure_votes_length_ok [simp]: "state_ok s \<Longrightarrow> ensure_votes_length s = s"
  by (simp add: state_ok_def ensure_votes_length_def Let_def)

lemma state_ok_load: "state_ok (load_state_from_disk h st d)"
  by (simp add: load_state_from_disk_def DocState_default_def state_ok_def
        split: option.split doc_file.split)
    (simp add: state_ok_def [symmetric])

lemma votes_inv_fresh: "doc_states st = Map.empty \<Longrightarrow> votes_inv st"
  by (simp add: votes_inv_def)

lemma votes_inv_upd:
  "votes_inv st \<Longrightarrow> state_ok s \<Longrightarrow> votes_inv (st\<lparr>doc_states := (doc_states st)(d \<mapsto> s)\<rparr>)"
  by (simp add: votes_inv_def)

lemma votes_inv_get_state:
  "votes_inv st \<Longrightarrow> votes_inv (fst (get_state h st d)) \<and> state_ok (snd (get_state h st d))"
  by (auto simp: get_state_def Let_def votes_inv_upd state_ok_load votes_inv_def
        split: option.split)

lemma votes_inv_save_state: "votes_inv st \<Longrightarrow> votes_inv (save_state st d s)"
  by (simp add: save_state_def Let_def votes_inv_def)

lemma votes_inv_doc_lock: "votes_inv (doc_lock st d) = votes_inv st"
  by (simp add: doc_lock_def votes_inv_def)

lemma votes_inv_set_locked: "votes_inv (set_locked st d v) = votes_inv st"
  by (simp add: set_locked_def votes_inv_def)

lemma votes_inv_ensure_tokens_locked:
  assumes "votes_inv st"
  shows "votes_inv (fst (ensure_tokens_locked h st d src now)) \<and>
         (\<forall>s. snd (ensure_tokens_locked h st d src now) = Inr s \<longrightarrow> state_ok s)"
proof -
  obtain st1 state where g: "get_state h st d = (st1, state)" by (cases "get_state h st d")
  with votes_inv_get_state [OF assms, of h d] have i: "votes_inv st1" "state_ok state" by simp_all
  show ?thesis
    using i by (auto simp: ensure_tokens_locked_def g Let_def votes_inv_save_state
        split: sum.split prod.split)
qed


lemma votes_inv_ensure_tokens:
  "votes_inv st \<Longrightarrow>
   votes_inv (fst (ensure_tokens h st d src now)) \<and>
   (\<forall>s. snd (ensure_tokens h st d src now) = Inr s \<longrightarrow> state_ok s)"
  unfolding ensure_tokens_def
  by (rule votes_inv_ensure_tokens_locked) (simp add: votes_inv_doc_lock)

lemma votes_inv_retokenize:
  assumes "votes_inv st"
  shows "votes_inv (fst (retokenize h st d src now)) \<and>
         (\<forall>s. snd (retokenize h st d src now) = Inr s \<longrightarrow> state_ok s)"
proof -
  obtain st1 state where g: "get_state h (doc_lock st d) d = (st1, state)"
    by (cases "get_state h (doc_lock st d) d")
  from assms have "votes_inv (doc_lock st d)" by (simp add: votes_inv_doc_lock)
  from votes_inv_get_state [OF this, of h d] g have i: "votes_inv st1" by simp
  show ?thesis
    using i assms
    by (auto simp: retokenize_def g Let_def votes_inv_save_state state_ok_def
        split: sum.split prod.split)
qed

lemma votes_inv_clear_votes:
  assumes "votes_inv st"
  shows "votes_inv (fst (clear_votes h st d now)) \<and>
         (\<forall>s. snd (clear_votes h st d now) = Inr s \<longrightarrow> state_ok s)"
proof -
  obtain st1 r where e: "ensure_tokens_locked h (doc_lock st d) d None now = (st1, r)"
    by (cases "ensure_tokens_locked h (doc_lock st d) d None now")
  from assms have "votes_inv (doc_lock st d)" by (simp add: votes_inv_doc_lock)
  from votes_inv_ensure_tokens_locked [OF this, of h d None now] e
  have i: "votes_inv st1" by simp
  show ?thesis
    using i
    by (auto simp: clear_votes_def e Let_def votes_inv_save_state state_ok_def
        split: sum.split prod.split)
qed

lemma length_highlight_votes:
  "length (fst (highlight_votes c col vs lo hi)) = length vs"
proof -
  have "length (fst (foldl (highlight_step c col) acc idxs)) = length (fst acc)" for acc idxs
    by (induction idxs arbitrary: acc) (simp_all add: highlight_step_def Let_def split: prod.split)
  then show ?thesis by (simp add: highlight_votes_def)
qed

lemma votes_inv_apply_highlight:
  assumes "votes_inv st"
  shows "votes_inv (fst (apply_highlight h st d c s e col t now))"
proof (cases "is_locked st d")
  case True
  with assms show ?thesis by (simp add: apply_highlight_def)
next
  case False
  obtain st1 r where en: "ensure_tokens_locked h (doc_lock st d) d None now = (st1, r)"
    by (cases "ensure_tokens_locked h (doc_lock st d) d None now")
  from assms have "votes_inv (doc_lock st d)" by (simp add: votes_inv_doc_lock)
  from votes_inv_ensure_tokens_locked [OF this, of h d None now] en
  have i: "votes_inv st1" "\<And>s. r = Inr s \<Longrightarrow> state_ok s" by simp_all
  show ?thesis
  proof (cases r)
    case (Inl err)
    with i False show ?thesis by (simp add: apply_highlight_def en)
  next
    case (Inr state)
    with i have ok: "state_ok state" by simp
    obtain lo hi where cl: "clamp_range (int (length (tokens state))) s e = (lo, hi)"
      by (cases "clamp_range (int (length (tokens state))) s e")
    obtain vs ch where hv: "highlight_votes c col (votes state) lo hi = (vs, ch)"
      by (cases "highlight_votes c col (votes state) lo hi")
    from length_highlight_votes [of c col "votes state" lo hi] hv
    have "length vs = length (votes state)" by simp
    with ok have ok2: "state_ok (state\<lparr>votes := vs\<rparr>)" by (simp add: state_ok_def)
    then have ok3: "state_ok (state\<lparr>votes := vs, updated := u\<rparr>)" for u
      by (simp add: state_ok_def)
    show ?thesis
      using False i(1) ok ok2 ok3
      by (simp add: apply_highlight_def en Inr cl hv Let_def votes_inv_save_state votes_inv_upd)
  qed
qed

lemma votes_inv_clear_client:
  assumes "votes_inv st"
  shows "votes_inv (fst (clear_client h st d c t now))"
proof (cases "is_locked st d")
  case True
  with assms show ?thesis by (simp add: clear_client_def)
next
  case False
  obtain st1 r where en: "ensure_tokens_locked h (doc_lock st d) d None now = (st1, r)"
    by (cases "ensure_tokens_locked h (doc_lock st d) d None now")
  from assms have "votes_inv (doc_lock st d)" by (simp add: votes_inv_doc_lock)
  from votes_inv_ensure_tokens_locked [OF this, of h d None now] en
  have i: "votes_inv st1" "\<And>s. r = Inr s \<Longrightarrow> state_ok s" by simp_all
  show ?thesis
  proof (cases r)
    case (Inl err)
    with i False show ?thesis by (simp add: clear_client_def en)
  next
    case (Inr state)
    with i have ok: "state_ok state" by simp
    then have ok2: "state_ok (state\<lparr>votes := map (\<lambda>b. dict_pop b c) (votes state)\<rparr>)"
      by (simp add: state_ok_def)
    show ?thesis
      using False i(1) ok2
      by (auto simp: clear_client_def en Inr Let_def votes_inv_save_state votes_inv_upd)
  qed
qed

lemma votes_inv_run_op:
  assumes "votes_inv st"
  shows "votes_inv (fst (run_op h st op)) \<and> (\<forall>s. snd (run_op h st op) = Some s \<longrightarrow> state_ok s)"
proof (cases op)
  case (GetState d)
  with votes_inv_get_state [OF assms, of h d] show ?thesis
    by (cases "get_state h st d") simp
next
  case (EnsureTokens d src now)
  with votes_inv_ensure_tokens [OF assms, of h d src now] show ?thesis
    by (auto simp: returned_state_def split: prod.split sum.splits)
next
  case (Retokenize d src now)
  with votes_inv_retokenize [OF assms, of h d src now] show ?thesis
    by (auto simp: returned_state_def split: prod.split sum.splits)
next
  case (ClearVotes d now)
  with votes_inv_clear_votes [OF assms, of h d now] show ?thesis
    by (auto simp: returned_state_def split: prod.split sum.splits)
next
  case (ApplyHighlight d c s e col t now)
  with votes_inv_apply_highlight [OF assms] show ?thesis by simp
next
  case (ClearClient d c t now)
  with votes_inv_clear_client [OF assms] show ?thesis by simp
next
  case (SaveState d s)
  with votes_inv_save_state [OF assms] show ?thesis by simp
next
  case (SetLocked d v)
  with assms show ?thesis by (simp add: votes_inv_set_locked)
qed

lemma votes_inv_run_ops: "votes_inv st \<Longrightarrow> votes_inv (run_ops h st ops)"
  unfolding run_ops_def
  by (induction ops arbitrary: st) (simp_all add: votes_inv_run_op)

lemma ensure_votes_length_votes:
  "votes (ensure_votes_length s)
   = take (length (tokens s)) (votes s @ replicate (length (tokens s) - length (votes s)) [])"
  by (simp add: ensure_votes_length_def Let_def)

text \<open>
  Claim C5. From a store whose cached states have as many vote maps as tokens (a fresh
  store, whose cache is empty, is one, whatever its snapshot files hold), after every
  sequence of store operations (\<open>get_state\<close>, \<open>ensure_tokens\<close>,
  \<open>retokenize\<close>, \<open>clear_votes\<close>, \<open>apply_highlight\<close>, \<open>clear_client\<close>, \<open>save_state\<close>,
  \<open>set_locked\<close>, in any order and on any documents), every cached document state still has
  as many vote maps as tokens, and so has every state an operation returns; a snapshot whose
  lengths differ is reconciled by \<open>ensure_votes_length\<close>, which pads the votes with empty
  maps or truncates them to the number of tokens.
\<close>

theorem votes_length_invariant:
  assumes "votes_inv st"
  shows "votes_inv (run_ops h st ops) \<and>
         (\<forall>s. snd (run_op h (run_ops h st ops) op) = Some s \<longrightarrow> length (votes s) = length (tokens s)) \<and>
         tokens (ensure_votes_length s0) = tokens s0 \<and>
         length (votes (ensure_votes_length s0)) = length (tokens s0) \<and>
         votes (ensure_votes_length s0)
           = take (length (tokens s0)) (votes s0 @ replicate (length (tokens s0) - length (votes s0)) [])"
proof -
  have i: "votes_inv (run_ops h st ops)" using assms by (rule votes_inv_run_ops)
  have "tokens (ensure_votes_length s0) = tokens s0"
    by (simp add: ensure_votes_length_def Let_def)
  moreover have "length (votes (ensure_votes_length s0)) = length (tokens s0)"
    using state_ok_ensure [of s0] calculation by (simp add: state_ok_def)
  ultimately show ?thesis
    using i votes_inv_run_op [OF i, of h op] ensure_votes_length_votes [of s0]
    by (simp add: state_ok_def)
qed

text \<open>
  Claim C6. For a document whose lock flag is set, \<open>apply_highlight\<close> and
  \<open>clear_client\<close> return false for every client, range, color and timestamp, and leave the
  whole store as it was: the cached states, the snapshot files, and the registry of
  mutexes (the flag is tested before \<^verbatim>\<open>_doc_lock\<close> is reached, so no mutex is created).
\<close>

theorem locked_document_rejects_votes:
  assumes "is_locked st doc_id"
  shows "apply_highlight h st doc_id client_id start end' color timestamp now = (st, Inr False) \<and>
         clear_client h st doc_id client_id timestamp now = (st, Inr False)"
  using assms by (simp add: apply_highlight_def clear_client_def)

lemma order_pair_swap:
  "(if e < s then (e, s) else (s, e)) = (if s < e then (s, e) else (e, s))" for s e :: int
  by auto

lemma clamp_range_swap: "clamp_range n a b = clamp_range n b a"
  unfolding clamp_range_def Let_def by (rule order_pair_swap)

text \<open>
  Claim C7. \<open>apply_highlight\<close> gives the same return value and the same store when its
  \<open>start\<close> and \<open>end\<close> arguments are exchanged; in particular a call with
  \<open>start > end\<close> behaves as the call with the swapped arguments.
\<close>

theorem apply_highlight_swap:
  "apply_highlight h st doc_id client_id start end' color timestamp now
   = apply_highlight h st doc_id client_id end' start color timestamp now"
  unfolding apply_highlight_def
  by (subst clamp_range_swap) (rule refl)


theorem votes_length_invariant_witness:
  "votes_inv store_mismatch \<and>
   map_option (\<lambda>s. (length (votes s), length (tokens s)))
     (doc_states (run_ops host0 store_mismatch example_ops) (py ''doc2'')) = Some (3, 3) \<and>
   map_option (\<lambda>s. (length (votes s), length (tokens s)))
     (doc_states (run_ops host0 store_mismatch example_ops) (py ''doc1'')) = Some (2, 2)"
proof -
  have h: "votes_inv store_mismatch"
    by (simp add: votes_inv_def store_mismatch_def store0_def)
  have e2: "map_option (\<lambda>s. length (tokens s))
     (doc_states (run_ops host0 store_mismatch example_ops) (py ''doc2'')) = Some 3"
    by code_simp
  have e1: "map_option (\<lambda>s. length (tokens s))
     (doc_states (run_ops host0 store_mismatch example_ops) (py ''doc1'')) = Some 2"
    by code_simp
  from votes_length_invariant [OF h, of host0 example_ops]
  have "votes_inv (run_ops host0 store_mismatch example_ops)" by simp
  then have "length (votes s) = length (tokens s)"
    if "doc_states (run_ops host0 store_mismatch example_ops) d = Some s" for d s
    using that by (auto simp: votes_inv_def state_ok_def)
  with e1 e2 h show ?thesis by auto
qed

theorem locked_document_rejects_votes_witness:
  "is_locked (set_locked scenario_A (py ''doc1'') True) (py ''doc1'') \<and>
   apply_highlight host0 (set_locked scenario_A (py ''doc1'') True) (py ''doc1'') (py ''B'') 1 1
       (py ''green'') None 2
     = (set_locked scenario_A (py ''doc1'') True, Inr False) \<and>
   clear_client host0 (set_locked scenario_A (py ''doc1'') True) (py ''doc1'') (py ''A'') None 2
     = (set_locked scenario_A (py ''doc1'') True, Inr False)"
proof -
  have l: "is_locked (set_locked scenario_A (py ''doc1'') True) (py ''doc1'')"
    by (simp add: is_locked_def set_locked_def)
  from locked_document_rejects_votes [OF l, of host0 "py ''B''" 1 1 "py ''green''" None 2]
    locked_document_rejects_votes [OF l, of host0 "py ''A''" 1 1 "py ''green''" None 2] l
  show ?thesis by simp
qed

lemma tokenize_from_source_name:
  "tokenize_from_source h st n = Inr (toks, r) \<Longrightarrow> r = n"
  by (auto simp: tokenize_from_source_def Let_def split: sum.splits)

text \<open>
  Claim C4, as amended. \<open>retokenize\<close> re-tokenizes from the resolved source name, where
  the resolution is the (sanitized) explicit override when one is given and the default
  name otherwise; the name previously stored in the document is not consulted. When that
  source exists, the tokens are replaced by its tokenization, the votes become empty maps,
  one per new token, the timestamp becomes the current time, the source name becomes the
  resolved one, and the state is written to the document's snapshot; when it does not
  exist the error is returned and the store is unchanged.
\<close>

theorem retokenize_override_or_default:
  assumes "resolved = (if source \<noteq> None \<and> source \<noteq> Some [] then sanitize_source_name h source
                       else DEFAULT_SOURCE_NAME)"
  shows "(\<forall>e. tokenize_from_source h st resolved = Inl e \<longrightarrow>
            retokenize h st doc_id source now = (st, Inl e)) \<and>
         (\<forall>toks r. tokenize_from_source h st resolved = Inr (toks, r) \<longrightarrow>
            snd (retokenize h st doc_id source now)
              = Inr \<lparr>tokens = toks, votes = replicate (length toks) [], updated = Some now,
                     source_name = resolved\<rparr> \<and>
            doc_states (fst (retokenize h st doc_id source now)) doc_id
              = Some \<lparr>tokens = toks, votes = replicate (length toks) [], updated = Some now,
                      source_name = resolved\<rparr> \<and>
            doc_files (fst (retokenize h st doc_id source now)) doc_id
              = Some (Json \<lparr>p_tokens = toks, p_votes = replicate (length toks) [],
                            p_updated = Some now, p_sourceName = resolved\<rparr>))"
proof (intro conjI allI impI)
  fix e assume "tokenize_from_source h st resolved = Inl e"
  then show "retokenize h st doc_id source now = (st, Inl e)"
    using assms by (simp add: retokenize_def Let_def)
next
  fix toks r assume t: "tokenize_from_source h st resolved = Inr (toks, r)"
  then have r: "r = resolved" by (rule tokenize_from_source_name)
  obtain st1 state where g: "get_state h (doc_lock st doc_id) doc_id = (st1, state)"
    by (cases "get_state h (doc_lock st doc_id) doc_id")
  have ok: "state_ok (state\<lparr>tokens := toks, votes := replicate (length toks) [],
              updated := Some now, source_name := resolved\<rparr>)"
    by (simp add: state_ok_def)
  have rt: "retokenize h st doc_id source now
      = (save_state st1 doc_id
           (state\<lparr>tokens := toks, votes := replicate (length toks) [], updated := Some now,
                  source_name := resolved\<rparr>),
         Inr (state\<lparr>tokens := toks, votes := replicate (length toks) [], updated := Some now,
                    source_name := resolved\<rparr>))"
    using assms t r by (simp add: retokenize_def Let_def g)
  show "snd (retokenize h st doc_id source now)
      = Inr \<lparr>tokens = toks, votes = replicate (length toks) [], updated = Some now,
             source_name = resolved\<rparr>"
    by (simp add: rt)
  show "doc_states (fst (retokenize h st doc_id source now)) doc_id
      = Some \<lparr>tokens = toks, votes = replicate (length toks) [], updated = Some now,
              source_name = resolved\<rparr>"
    using ok by (simp add: rt save_state_def Let_def)
  show "doc_files (fst (retokenize h st doc_id source now)) doc_id
      = Some (Json \<lparr>p_tokens = toks, p_votes = replicate (length toks) [],
                    p_updated = Some now, p_sourceName = resolved\<rparr>)"
    using ok by (simp add: rt save_state_def Let_def)
qed

lemma store_notes_doc1:
  "doc_states store_notes (py ''doc1'')
   = Some \<lparr>tokens = [py ''beta'', py ''gamma''], votes = [[], []], updated = Some 1,
           source_name = py ''notes.txt''\<rparr>"
  by code_simp

theorem retokenize_override_or_default_witness:
  "snd (retokenize host0 store_notes (py ''doc1'') None 2)
     = Inr \<lparr>tokens = [py ''The'', py ''quick'', py ''fox''], votes = [[], [], []],
            updated = Some 2, source_name = DEFAULT_SOURCE_NAME\<rparr>"
proof -
  have t: "tokenize_from_source host0 store_notes DEFAULT_SOURCE_NAME
      = Inr ([py ''The'', py ''quick'', py ''fox''], DEFAULT_SOURCE_NAME)"
    by code_simp
  from retokenize_override_or_default [of DEFAULT_SOURCE_NAME None host0 store_notes
      "py ''doc1''" 2] t
  show ?thesis by (simp add: numeral_3_eq_3)
qed

theorem retokenize_ignores_stored_name_counterexample:
  "doc_states store_notes (py ''doc1'')
     = Some \<lparr>tokens = [py ''beta'', py ''gamma''], votes = [[], []], updated = Some 1,
             source_name = py ''notes.txt''\<rparr> \<and>
   resolve_source_name host0
     \<lparr>tokens = [py ''beta'', py ''gamma''], votes = [[], []], updated = Some 1,
      source_name = py ''notes.txt''\<rparr> None = py ''notes.txt'' \<and>
   snd (retokenize host0 store_notes (py ''doc1'') None 2)
     = Inr \<lparr>tokens = [py ''The'', py ''quick'', py ''fox''], votes = [[], [], []],
            updated = Some 2, source_name = py ''text.txt''\<rparr>"
  by code_simp

text \<open>
  Claim C1, as amended. With tokens The, quick, fox, after client A votes red over
  \<open>[0,1]\<close> and client B then votes green over \<open>[1,1]\<close>, the tie at index 1 resolves to
  the color seen first (A's red), and since positions 0 and 1 then share their top color
  they are merged: the aggregated ranges are the single range from 0 to 1 in red.
\<close>

theorem scenario_ranges_merged:
  "map_option tokens (doc_states scenario_AB (py ''doc1''))
     = Some [py ''The'', py ''quick'', py ''fox''] \<and>
   map_option votes (doc_states scenario_A (py ''doc1''))
     = Some [[(py ''A'', py ''red'')], [(py ''A'', py ''red'')], []] \<and>
   map_option votes (doc_states scenario_AB (py ''doc1''))
     = Some [[(py ''A'', py ''red'')],
             [(py ''A'', py ''red''), (py ''B'', py ''green'')], []] \<and>
   top_color_at [(py ''A'', py ''red''), (py ''B'', py ''green'')] = py ''red'' \<and>
   map_option (\<lambda>s. ranges_from_votes (votes s)) (doc_states scenario_AB (py ''doc1''))
     = Some [\<lparr>rstart = 0, rend = 1, rcolor = py ''red''\<rparr>]"
  by code_simp

theorem scenario_ranges_counterexample:
  "map_option (\<lambda>s. ranges_from_votes (votes s)) (doc_states scenario_AB (py ''doc1''))
     \<noteq> Some [\<lparr>rstart = 0, rend = 0, rcolor = py ''red''\<rparr>,
              \<lparr>rstart = 1, rend = 1, rcolor = py ''red''\<rparr>]"
  by code_simp

section \<open>Properties of forms and button panels\<close>

lemma trim_take:
  "(if MAX_FORM_ANSWER_LENGTH < length t then take MAX_FORM_ANSWER_LENGTH t else t)
   = take MAX_FORM_ANSWER_LENGTH t"
  by simp

lemma length_py_strip: "length (py_strip s) \<le> length s"
proof -
  have "length (py_strip s) = length (dropWhile isspace (rev (dropWhile isspace s)))"
    by (simp add: py_strip_def)
  also have "\<dots> \<le> length (rev (dropWhile isspace s))" by (rule length_dropWhile_le)
  also have "\<dots> = length (dropWhile isspace s)" by simp
  also have "\<dots> \<le> length s" by (rule length_dropWhile_le)
  finally show ?thesis .
qed

lemma submit_empty:
  "py_strip ans = [] \<Longrightarrow>
   submit h fm fid client_id ans now = (fm, Inl (FormError ''empty_answer'' 400 None))"
  by (simp add: submit_def)

lemma submit_refused:
  assumes "py_strip ans \<noteq> []"
    and "form_ensure_loaded (form_lock fm fid) fid = (fm1, state)"
    and "submit_checks h state client_id now = Some e"
  shows "submit h fm fid client_id ans now = (fm1, Inl e)"
  using assms by (simp add: submit_def Let_def)

lemma submit_passed:
  assumes "py_strip ans \<noteq> []"
    and "form_ensure_loaded (form_lock fm fid) fid = (fm1, state)"
    and "submit_checks h state client_id now = None"
    and "r = \<lparr>r_seq = form_next_seq state, r_clientId = client_id,
              r_answer = take MAX_FORM_ANSWER_LENGTH (py_strip ans),
              r_question = form_question state, r_submitted = now\<rparr>"
    and "state' = state\<lparr>form_responses :=
                     (if MAX_FORM_RESPONSES < length (form_responses state @ [r])
                      then keep_last MAX_FORM_RESPONSES (form_responses state @ [r])
                      else form_responses state @ [r]),
                   form_last_by_client := dict_set (form_last_by_client state) client_id now,
                   form_next_seq := form_next_seq state + 1, form_updated := Some now\<rparr>"
  shows "submit h fm fid client_id ans now
         = (if form_payload_encodable fid state'
            then (fm1\<lparr>form_files := (form_files fm1)(fid \<mapsto> FormJson (form_snapshot state')),
                      form_states := (form_states fm1)(fid \<mapsto> state')\<rparr>, Inr r)
            else (fm1\<lparr>form_states := (form_states fm1)(fid \<mapsto> state')\<rparr>,
                  Inl UnicodeEncodeError))"
  using assms(1-3) unfolding assms(4,5)
  by (simp add: submit_def Let_def trim_take form_save_state_def del: length_append)

lemma submit_answer:
  assumes "snd (submit h fm fid client_id ans now) = Inr record"
  shows "r_answer record = take MAX_FORM_ANSWER_LENGTH (py_strip ans)"
proof -
  obtain fm1 state where l: "form_ensure_loaded (form_lock fm fid) fid = (fm1, state)"
    by (cases "form_ensure_loaded (form_lock fm fid) fid")
  from assms have ne: "py_strip ans \<noteq> []"
    by (auto simp: submit_empty)
  have k: "submit_checks h state client_id now = None"
  proof (cases "submit_checks h state client_id now")
    case None then show ?thesis .
  next
    case (Some e)
    from submit_refused [OF ne l Some] assms show ?thesis by simp
  qed
  from submit_passed [OF ne l k refl refl] assms show ?thesis
    by (auto split: if_splits)
qed

lemma api_rejects_length:
  "MAX_FORM_ANSWER_LENGTH < length (answer p) \<or> answer p = [] \<Longrightarrow>
   api_forms_submit h fm p now = (fm, Inl RequestValidationError)"
  by (auto simp: api_forms_submit_def FormSubmitRequest_valid_def)

lemma api_rejects_blank:
  "FormSubmitRequest_valid h p \<Longrightarrow> py_strip (clientId p) \<noteq> [] \<Longrightarrow> py_strip (answer p) = [] \<Longrightarrow>
   api_forms_submit h fm p now = (fm, Inl (HTTPException 400 (ErrorInfo ''empty_answer'' None)))"
  by (simp add: api_forms_submit_def Let_def submit_empty form_error_to_http_def)

lemma api_calls_submit:
  assumes "FormSubmitRequest_valid h p" and "py_strip (clientId p) \<noteq> []"
  shows "fst (api_forms_submit h fm p now)
         = fst (submit h fm (sanitize_form_id (formId p)) (py_strip (clientId p)) (answer p) now) \<and>
         (\<forall>f record. snd (api_forms_submit h fm p now) = Inr (f, record) \<longrightarrow>
            f = sanitize_form_id (formId p) \<and>
            snd (submit h fm f (py_strip (clientId p)) (answer p) now) = Inr record)"
  using assms
  by (cases "submit h fm (sanitize_form_id (formId p)) (py_strip (clientId p)) (answer p) now")
    (auto simp: api_forms_submit_def Let_def split: sum.splits)

lemma api_never_truncates:
  assumes "snd (api_forms_submit h fm p now) = Inr (f, record)"
  shows "r_answer record = py_strip (answer p) \<and> length (answer p) \<le> MAX_FORM_ANSWER_LENGTH"
proof -
  from assms have v: "FormSubmitRequest_valid h p"
    by (auto simp: api_forms_submit_def split: if_splits)
  from assms v have c: "py_strip (clientId p) \<noteq> []"
    by (auto simp: api_forms_submit_def Let_def split: if_splits)
  from api_calls_submit [OF v c, of fm now] assms
  have "snd (submit h fm f (py_strip (clientId p)) (answer p) now) = Inr record" by blast
  then have a: "r_answer record = take MAX_FORM_ANSWER_LENGTH (py_strip (answer p))"
    by (rule submit_answer)
  from v have le: "length (answer p) \<le> MAX_FORM_ANSWER_LENGTH"
    by (simp add: FormSubmitRequest_valid_def)
  with length_py_strip [of "answer p"] have "length (py_strip (answer p)) \<le> MAX_FORM_ANSWER_LENGTH"
    by simp
  with a le show ?thesis by simp
qed

lemma keep_last_snoc: "0 < n \<Longrightarrow> last (keep_last n (xs @ [x])) = x"
  by (simp add: keep_last_def)

text \<open>
  Claim C8, as amended. \<open>submit\<close> rejects an answer that is empty or whitespace-only with
  the error \<open>empty_answer\<close> (status 400) and leaves the manager as it was. Any other answer
  is never rejected for its length: when one of the locked, cooldown and repeat checks
  fails, that error is raised and no record is appended; when they pass, the record holds
  the stripped answer cut to \<open>MAX_FORM_ANSWER_LENGTH\<close> characters, it becomes the last
  response of the form, the client's last action, the sequence number and the timestamp
  are updated, and the new state is cached and written to the snapshot. If a string of the
  snapshot has no UTF-8 encoding, writing raises after the cached state was changed, and
  the snapshot file stays as it was. The submit endpoint validates the request model
  first: a raw answer longer than the maximum (or empty) is rejected before \<open>submit\<close> is
  called, with no state change; a whitespace-only answer is rejected by \<open>submit\<close> through
  the endpoint, again with no state change; otherwise the endpoint leaves the manager as
  \<open>submit\<close> does, and an answer it records is the stripped raw answer, never a cut one, so
  the truncation is reached only by direct callers of \<open>submit\<close>.
\<close>

theorem form_submit_trims_or_rejects:
  fixes h :: "'a host_scheme" and state :: FormState and client_id ans :: pystr and now :: real
  defines "r \<equiv> \<lparr>r_seq = form_next_seq state, r_clientId = client_id,
                  r_answer = take MAX_FORM_ANSWER_LENGTH (py_strip ans),
                  r_question = form_question state, r_submitted = now\<rparr>"
  defines "state' \<equiv> state\<lparr>form_responses :=
                     (if MAX_FORM_RESPONSES < length (form_responses state @ [r])
                      then keep_last MAX_FORM_RESPONSES (form_responses state @ [r])
                      else form_responses state @ [r]),
                   form_last_by_client := dict_set (form_last_by_client state) client_id now,
                   form_next_seq := form_next_seq state + 1, form_updated := Some now\<rparr>"
  shows
  "(py_strip ans = [] \<longrightarrow>
      submit h fm fid client_id ans now = (fm, Inl (FormError ''empty_answer'' 400 None))) \<and>
   (py_strip ans \<noteq> [] \<and> form_ensure_loaded (form_lock fm fid) fid = (fm1, state) \<longrightarrow>
      (\<forall>e. submit_checks h state client_id now = Some e \<longrightarrow>
         submit h fm fid client_id ans now = (fm1, Inl e)) \<and>
      (submit_checks h state client_id now = None \<and> form_payload_encodable fid state' \<longrightarrow>
         submit h fm fid client_id ans now
           = (fm1\<lparr>form_files := (form_files fm1)(fid \<mapsto> FormJson (form_snapshot state')),
                   form_states := (form_states fm1)(fid \<mapsto> state')\<rparr>, Inr r) \<and>
         last (form_responses state') = r \<and>
         dict_get (form_last_by_client state') client_id = Some now) \<and>
      (submit_checks h state client_id now = None \<and> \<not> form_payload_encodable fid state' \<longrightarrow>
         submit h fm fid client_id ans now
           = (fm1\<lparr>form_states := (form_states fm1)(fid \<mapsto> state')\<rparr>, Inl UnicodeEncodeError))) \<and>
   (\<forall>record. snd (submit h fm fid client_id ans now) = Inr record \<longrightarrow>
      r_answer record = take MAX_FORM_ANSWER_LENGTH (py_strip ans) \<and>
      length (r_answer record) \<le> MAX_FORM_ANSWER_LENGTH) \<and>
   (MAX_FORM_ANSWER_LENGTH < length (answer p) \<or> answer p = [] \<longrightarrow>
      api_forms_submit h fm p now = (fm, Inl RequestValidationError)) \<and>
   (FormSubmitRequest_valid h p \<and> py_strip (clientId p) \<noteq> [] \<longrightarrow>
      fst (api_forms_submit h fm p now)
        = fst (submit h fm (sanitize_form_id (formId p)) (py_strip (clientId p)) (answer p) now) \<and>
      (py_strip (answer p) = [] \<longrightarrow>
         api_forms_submit h fm p now
           = (fm, Inl (HTTPException 400 (ErrorInfo ''empty_answer'' None))))) \<and>
   (\<forall>f record. snd (api_forms_submit h fm p now) = Inr (f, record) \<longrightarrow>
      r_answer record = py_strip (answer p) \<and> length (answer p) \<le> MAX_FORM_ANSWER_LENGTH)"
proof -
  have A: "py_strip ans = [] \<longrightarrow>
      submit h fm fid client_id ans now = (fm, Inl (FormError ''empty_answer'' 400 None))"
    by (simp add: submit_empty)
  have B: "submit h fm fid client_id ans now = (fm1, Inl e)"
    if "py_strip ans \<noteq> []" "form_ensure_loaded (form_lock fm fid) fid = (fm1, state)"
       "submit_checks h state client_id now = Some e" for e
    using that by (rule submit_refused)
  have P: "submit h fm fid client_id ans now
         = (if form_payload_encodable fid state'
            then (fm1\<lparr>form_files := (form_files fm1)(fid \<mapsto> FormJson (form_snapshot state')),
                      form_states := (form_states fm1)(fid \<mapsto> state')\<rparr>, Inr r)
            else (fm1\<lparr>form_states := (form_states fm1)(fid \<mapsto> state')\<rparr>,
                  Inl UnicodeEncodeError))"
    if "py_strip ans \<noteq> []" "form_ensure_loaded (form_lock fm fid) fid = (fm1, state)"
       "submit_checks h state client_id now = None"
    using that(1) that(2) that(3) by (rule submit_passed) (simp_all add: r_def state'_def)
  have L: "last (form_responses state') = r"
    by (simp add: state'_def keep_last_snoc MAX_FORM_RESPONSES_def)
  have D: "dict_get (form_last_by_client state') client_id = Some now"
    by (simp add: state'_def dict_get_def map_of_dict_set)
  have E: "r_answer rcd = take MAX_FORM_ANSWER_LENGTH (py_strip ans) \<and>
      length (r_answer rcd) \<le> MAX_FORM_ANSWER_LENGTH"
    if "snd (submit h fm fid client_id ans now) = Inr rcd" for rcd
    using submit_answer [OF that] by simp
  have F: "MAX_FORM_ANSWER_LENGTH < length (answer p) \<or> answer p = [] \<longrightarrow>
      api_forms_submit h fm p now = (fm, Inl RequestValidationError)"
    by (simp add: api_rejects_length)
  have G: "fst (api_forms_submit h fm p now)
        = fst (submit h fm (sanitize_form_id (formId p)) (py_strip (clientId p)) (answer p) now) \<and>
      (py_strip (answer p) = [] \<longrightarrow>
         api_forms_submit h fm p now
           = (fm, Inl (HTTPException 400 (ErrorInfo ''empty_answer'' None))))"
    if "FormSubmitRequest_valid h p" "py_strip (clientId p) \<noteq> []"
    using api_calls_submit [OF that, of fm now] api_rejects_blank [OF that, of fm now] by simp
  have H: "r_answer rcd = py_strip (answer p) \<and> length (answer p) \<le> MAX_FORM_ANSWER_LENGTH"
    if "snd (api_forms_submit h fm p now) = Inr (f, rcd)" for f rcd
    using that by (rule api_never_truncates)
  show ?thesis
    using A B P L D E F G H by (intro conjI allI impI; (elim conjE)?; simp)
qed


theorem form_submit_trims_or_rejects_witness:
  "submit host0 forms0 (py ''feedback'') (py ''c1'') (replicate 1030 97) 5
     = (\<lparr>form_states = [py ''feedback'' \<mapsto> form_state1], form_locks = {py ''feedback''},
         form_files = [py ''feedback'' \<mapsto> FormJson (form_snapshot form_state1)]\<rparr>,
        Inr \<lparr>r_seq = 1, r_clientId = py ''c1'', r_answer = replicate 1024 97,
               r_question = DEFAULT_FORM_QUESTION, r_submitted = 5\<rparr>) \<and>
   submit host0 forms0 (py ''feedback'') (py ''c1'') [55357] 5
     = (\<lparr>form_states = [py ''feedback'' \<mapsto> form_state_surrogate],
         form_locks = {py ''feedback''}, form_files = Map.empty\<rparr>,
        Inl UnicodeEncodeError) \<and>
   submit host0 forms0 (py ''feedback'') (py ''c1'') (py ''   '') 5
     = (forms0, Inl (FormError ''empty_answer'' 400 None)) \<and>
   api_forms_submit host0 forms0 \<lparr>formId = None, clientId = py ''c1'', answer = py ''   ''\<rparr> 5
     = (forms0, Inl (HTTPException 400 (ErrorInfo ''empty_answer'' None)))"
proof -
  let ?F = "py ''feedback''" and ?C = "py ''c1''"
  let ?P = "\<lparr>formId = None, clientId = py ''c1'', answer = py ''   ''\<rparr>"
  let ?FM1 = "\<lparr>form_states = [?F \<mapsto> form_default_state ?F], form_locks = {?F},
               form_files = Map.empty\<rparr>"
  have s: "py_strip (replicate 1030 97) = replicate 1030 97" by code_simp
  have s2: "py_strip [55357] = [55357]" by code_simp
  have b: "py_strip (py ''   '') = []" by code_simp
  have c: "py_strip ?C \<noteq> []" by code_simp
  have v: "FormSubmitRequest_valid host0 ?P" by code_simp
  have l: "form_ensure_loaded (form_lock forms0 ?F) ?F = (?FM1, form_default_state ?F)"
    by (simp add: form_ensure_loaded_def form_lock_def forms0_def form_load_state_def Let_def)
  have k: "submit_checks host0 (form_default_state ?F) ?C 5 = None"
    by (simp add: submit_checks_def form_default_state_def cooldown_retry_def dict_get_def)
  have e1: "form_payload_encodable ?F form_state1" by code_simp
  have e2: "\<not> form_payload_encodable ?F form_state_surrogate" by code_simp
  have n1: "(form_default_state ?F)
      \<lparr>form_responses :=
         if MAX_FORM_RESPONSES
            < length (form_responses (form_default_state ?F) @
                [\<lparr>r_seq = form_next_seq (form_default_state ?F), r_clientId = ?C,
                  r_answer = take MAX_FORM_ANSWER_LENGTH (py_strip (replicate 1030 97)),
                  r_question = form_question (form_default_state ?F), r_submitted = 5\<rparr>])
         then keep_last MAX_FORM_RESPONSES
                (form_responses (form_default_state ?F) @
                 [\<lparr>r_seq = form_next_seq (form_default_state ?F), r_clientId = ?C,
                   r_answer = take MAX_FORM_ANSWER_LENGTH (py_strip (replicate 1030 97)),
                   r_question = form_question (form_default_state ?F), r_submitted = 5\<rparr>])
         else form_responses (form_default_state ?F) @
                [\<lparr>r_seq = form_next_seq (form_default_state ?F), r_clientId = ?C,
                  r_answer = take MAX_FORM_ANSWER_LENGTH (py_strip (replicate 1030 97)),
                  r_question = form_question (form_default_state ?F), r_submitted = 5\<rparr>],
       form_last_by_client := dict_set (form_last_by_client (form_default_state ?F)) ?C 5,
       form_next_seq := form_next_seq (form_default_state ?F) + 1,
       form_updated := Some 5\<rparr> = form_state1"
    by (simp add: s form_default_state_def form_state1_def MAX_FORM_RESPONSES_def
        MAX_FORM_ANSWER_LENGTH_def)
  have n2: "(form_default_state ?F)
      \<lparr>form_responses :=
         if MAX_FORM_RESPONSES
            < length (form_responses (form_default_state ?F) @
                [\<lparr>r_seq = form_next_seq (form_default_state ?F), r_clientId = ?C,
                  r_answer = take MAX_FORM_ANSWER_LENGTH (py_strip [55357]),
                  r_question = form_question (form_default_state ?F), r_submitted = 5\<rparr>])
         then keep_last MAX_FORM_RESPONSES
                (form_responses (form_default_state ?F) @
                 [\<lparr>r_seq = form_next_seq (form_default_state ?F), r_clientId = ?C,
                   r_answer = take MAX_FORM_ANSWER_LENGTH (py_strip [55357]),
                   r_question = form_question (form_default_state ?F), r_submitted = 5\<rparr>])
         else form_responses (form_default_state ?F) @
                [\<lparr>r_seq = form_next_seq (form_default_state ?F), r_clientId = ?C,
                  r_answer = take MAX_FORM_ANSWER_LENGTH (py_strip [55357]),
                  r_question = form_question (form_default_state ?F), r_submitted = 5\<rparr>],
       form_last_by_client := dict_set (form_last_by_client (form_default_state ?F)) ?C 5,
       form_next_seq := form_next_seq (form_default_state ?F) + 1,
       form_updated := Some 5\<rparr> = form_state_surrogate"
    by (simp add: s2 form_default_state_def form_state_surrogate_def MAX_FORM_RESPONSES_def
        MAX_FORM_ANSWER_LENGTH_def)
  note t1 = form_submit_trims_or_rejects
    [where h = host0 and fm = forms0 and fid = ?F and client_id = ?C and now = 5
       and ans = "replicate 1030 97" and ?fm1.0 = ?FM1 and state = "form_default_state ?F"
       and p = ?P, unfolded n1]
  note t2 = form_submit_trims_or_rejects
    [where h = host0 and fm = forms0 and fid = ?F and client_id = ?C and now = 5
       and ans = "[55357]" and ?fm1.0 = ?FM1 and state = "form_default_state ?F"
       and p = ?P, unfolded n2]
  note t3 = form_submit_trims_or_rejects
    [where h = host0 and fm = forms0 and fid = ?F and client_id = ?C and now = 5
       and ans = "py ''   ''" and ?fm1.0 = ?FM1 and state = "form_default_state ?F"
       and p = ?P]
  have w1: "submit host0 forms0 ?F ?C (replicate 1030 97) 5
     = (?FM1\<lparr>form_files := (form_files ?FM1)(?F \<mapsto> FormJson (form_snapshot form_state1)),
              form_states := (form_states ?FM1)(?F \<mapsto> form_state1)\<rparr>,
        Inr \<lparr>r_seq = form_next_seq (form_default_state ?F), r_clientId = ?C,
               r_answer = take MAX_FORM_ANSWER_LENGTH (py_strip (replicate 1030 97)),
               r_question = form_question (form_default_state ?F), r_submitted = 5\<rparr>)"
    using t1 s l k e1 by simp
  have w2: "submit host0 forms0 ?F ?C [55357] 5
     = (?FM1\<lparr>form_states := (form_states ?FM1)(?F \<mapsto> form_state_surrogate)\<rparr>,
        Inl UnicodeEncodeError)"
    using t2 s2 l k e2 by simp
  have w3: "submit host0 forms0 ?F ?C (py ''   '') 5
     = (forms0, Inl (FormError ''empty_answer'' 400 None))"
    using t3 b by simp
  have w4: "api_forms_submit host0 forms0 ?P 5
     = (forms0, Inl (HTTPException 400 (ErrorInfo ''empty_answer'' None)))"
    using t3 b c v by simp
  from w1 w2 w3 w4 show ?thesis
    by (simp add: s form_default_state_def MAX_FORM_ANSWER_LENGTH_def)
qed

theorem form_submit_endpoint_rejects_long_counterexample:
  "length (replicate 1025 (97::int)) > MAX_FORM_ANSWER_LENGTH \<and>
   api_forms_submit host0 forms0
       \<lparr>formId = None, clientId = py ''c1'', answer = replicate 1025 97\<rparr> 5
     = (forms0, Inl RequestValidationError)"
  by (simp add: api_forms_submit_def FormSubmitRequest_valid_def MAX_FORM_ANSWER_LENGTH_def)

lemma fire_invalid_direction:
  "str_lower h direction \<noteq> py ''minus'' \<Longrightarrow> str_lower h direction \<noteq> py ''plus'' \<Longrightarrow>
   fire h bm pid client_id button_id direction now
     = (bm, Inl (ButtonError ''invalid_direction'' 400 None))"
  by (simp add: fire_def Let_def)

lemma fire_unknown:
  assumes "str_lower h direction = py ''minus'' \<or> str_lower h direction = py ''plus''"
    and "panel_ensure_loaded h (panel_lock bm pid) pid = (bm1, state)"
    and "\<not> panel_locked state"
    and "dict_get (panel_buttons state) button_id = None"
  shows "fire h bm pid client_id button_id direction now
         = (bm1, Inl (ButtonError ''unknown_button'' 404 None))"
  using assms by (auto simp: fire_def Let_def)

lemma panel_ensure_loaded_keeps:
  assumes "panel_ensure_loaded h (panel_lock bm pid) pid = (bm1, state)"
  shows "panel_files bm1 = panel_files bm \<and> panel_states bm1 pid = Some state \<and>
         (\<forall>p. p \<noteq> pid \<longrightarrow> panel_states bm1 p = panel_states bm p) \<and>
         (panel_states bm pid \<noteq> None \<longrightarrow> panel_states bm1 = panel_states bm) \<and>
         panel_ensure_loaded h bm1 pid = (bm1, state) \<and>
         snd (panel_ensure_loaded h bm pid) = state"
  using assms
  by (auto simp: panel_ensure_loaded_def panel_lock_def panel_load_state_def Let_def
      split: option.splits)

text \<open>
  Claim C9, as amended. For a panel that is not lock-flagged, firing an undefined button
  id with a direction that is \<open>minus\<close> or \<open>plus\<close> (after lower-casing) raises the
  not-found error (status 404, code \<open>unknown_button\<close>) and leaves the panel state as it
  was: the panel's state (buttons with their counters, events, \<open>next_seq\<close>, last-action
  map) is the one observed before the call, the snapshot files are untouched, and the
  other panels are untouched. With any other direction the call raises
  \<open>invalid_direction\<close> (status 400) before the button is looked up, and changes nothing.
\<close>

theorem fire_unknown_button_unchanged:
  "(str_lower h direction \<noteq> py ''minus'' \<and> str_lower h direction \<noteq> py ''plus'' \<longrightarrow>
      fire h bm pid client_id button_id direction now
        = (bm, Inl (ButtonError ''invalid_direction'' 400 None))) \<and>
   ((str_lower h direction = py ''minus'' \<or> str_lower h direction = py ''plus'') \<and>
    panel_ensure_loaded h (panel_lock bm pid) pid = (bm1, state) \<and>
    \<not> panel_locked state \<and> dict_get (panel_buttons state) button_id = None \<longrightarrow>
      fire h bm pid client_id button_id direction now
        = (bm1, Inl (ButtonError ''unknown_button'' 404 None)) \<and>
      snd (panel_ensure_loaded h bm pid) = state \<and>
      panel_ensure_loaded h bm1 pid = (bm1, state) \<and>
      panel_states bm1 pid = Some state \<and>
      panel_files bm1 = panel_files bm \<and>
      (\<forall>p. p \<noteq> pid \<longrightarrow> panel_states bm1 p = panel_states bm p) \<and>
      (panel_states bm pid \<noteq> None \<longrightarrow> panel_states bm1 = panel_states bm))"
  using fire_invalid_direction [of h direction bm pid client_id button_id now]
    fire_unknown [of h direction bm pid bm1 state button_id client_id now]
    panel_ensure_loaded_keeps [of h bm pid bm1 state]
  by blast


lemma panels1_state: "panel_states panels1 (py ''main'') = Some panel_state1"
  by code_simp

theorem fire_unknown_button_unchanged_witness:
  "panel_states panels1 (py ''main'') = Some panel_state1 \<and>
   \<not> panel_locked panel_state1 \<and>
   dict_get (panel_buttons panel_state1) (py ''nope'') = None \<and>
   snd (fire host0 panels1 (py ''main'') (py ''c2'') (py ''nope'') (py ''minus'') 6)
     = Inl (ButtonError ''unknown_button'' 404 None) \<and>
   panel_states (fst (fire host0 panels1 (py ''main'') (py ''c2'') (py ''nope'') (py ''minus'') 6))
     = panel_states panels1 \<and>
   panel_files (fst (fire host0 panels1 (py ''main'') (py ''c2'') (py ''nope'') (py ''minus'') 6))
     = panel_files panels1"
proof -
  have a: "\<not> panel_locked panel_state1" by (simp add: panel_state1_def)
  have b: "dict_get (panel_buttons panel_state1) (py ''nope'') = None" by code_simp
  have l: "panel_ensure_loaded host0 (panel_lock panels1 (py ''main'')) (py ''main'')
      = (panel_lock panels1 (py ''main''), panel_state1)"
    using panels1_state by (simp add: panel_ensure_loaded_def panel_lock_def)
  have d: "str_lower host0 (py ''minus'') = py ''minus''" by (simp add: host0_def)
  from fire_unknown_button_unchanged
    [of host0 "py ''minus''" panels1 "py ''main''" "py ''c2''" "py ''nope''" 6
      "panel_lock panels1 (py ''main'')" panel_state1] a b l d panels1_state
  show ?thesis by (simp add: panel_lock_def)
qed

theorem fire_invalid_direction_counterexample:
  "\<not> panel_locked (snd (panel_ensure_loaded host0 panels0 (py ''main''))) \<and>
   dict_get (panel_buttons (snd (panel_ensure_loaded host0 panels0 (py ''main'')))) (py ''nope'') = None \<and>
   snd (fire host0 panels0 (py ''main'') (py ''c1'') (py ''nope'') (py ''sideways'') 5)
     = Inl (ButtonError ''invalid_direction'' 400 None) \<and>
   snd (fire host0 panels0 (py ''main'') (py ''c1'') (py ''nope'') (py ''sideways'') 5)
     \<noteq> Inl (ButtonError ''unknown_button'' 404 None)"
  by code_simp

end
